theory Spec2Isabelle
  imports Complex_Main "HOL-Library.Word"
begin

section \<open>C++ float values\<close>

text \<open>
  The sink keeps its transition progress, its duration and all crop and blend parameters in
  C++ \<^verbatim>\<open>float\<close> fields. A float is a finite number, an infinity or a NaN. Comparisons
  follow IEEE 754: every ordered comparison with a NaN is false. The two zeros compare
  equal and are one value here. The rounding of a sum or a quotient to the float format is
  the parameter \<open>rnd\<close> of the arithmetic: nothing below depends on how it rounds.
\<close>

datatype cfloat = Finite real | PosInf | NegInf | NaN

datatype fault = DivisionByZero | ModuloByZero | IndexOutOfRange

fun flt :: "cfloat \<Rightarrow> cfloat \<Rightarrow> bool" where
  "flt NaN _ = False"
| "flt _ NaN = False"
| "flt (Finite a) (Finite b) = (a < b)"
| "flt (Finite a) PosInf = True"
| "flt (Finite a) NegInf = False"
| "flt PosInf _ = False"
| "flt NegInf (Finite b) = True"
| "flt NegInf PosInf = True"
| "flt NegInf NegInf = False"

fun fle :: "cfloat \<Rightarrow> cfloat \<Rightarrow> bool" where
  "fle NaN _ = False"
| "fle _ NaN = False"
| "fle (Finite a) (Finite b) = (a \<le> b)"
| "fle (Finite a) PosInf = True"
| "fle (Finite a) NegInf = False"
| "fle PosInf PosInf = True"
| "fle PosInf _ = False"
| "fle NegInf _ = True"

definition fge :: "cfloat \<Rightarrow> cfloat \<Rightarrow> bool" where
  "fge a b = fle b a"

text \<open>\<^verbatim>\<open>std::min(a, b)\<close> is \<^verbatim>\<open>(b < a) ? b : a\<close> and \<^verbatim>\<open>std::max(a, b)\<close> is
  \<^verbatim>\<open>(a < b) ? b : a\<close>.\<close>

definition std_min :: "cfloat \<Rightarrow> cfloat \<Rightarrow> cfloat" where
  "std_min a b = (if flt b a then b else a)"

definition std_max :: "cfloat \<Rightarrow> cfloat \<Rightarrow> cfloat" where
  "std_max a b = (if flt a b then b else a)"

fun fadd :: "(real \<Rightarrow> cfloat) \<Rightarrow> cfloat \<Rightarrow> cfloat \<Rightarrow> cfloat" where
  "fadd rnd NaN _ = NaN"
| "fadd rnd _ NaN = NaN"
| "fadd rnd (Finite a) (Finite b) = rnd (a + b)"
| "fadd rnd (Finite a) PosInf = PosInf"
| "fadd rnd (Finite a) NegInf = NegInf"
| "fadd rnd PosInf NegInf = NaN"
| "fadd rnd PosInf _ = PosInf"
| "fadd rnd NegInf PosInf = NaN"
| "fadd rnd NegInf _ = NegInf"

text \<open>Division by a zero divisor is undefined behaviour in C++ (expr.mul): the model
  reports it as a fault instead of choosing a quotient. (An IEEE 754 target raises its
  divide-by-zero flag there and delivers an infinity or a NaN.) For every other divisor
  \<open>fquot\<close> is the IEEE quotient.\<close>

fun fquot :: "(real \<Rightarrow> cfloat) \<Rightarrow> cfloat \<Rightarrow> cfloat \<Rightarrow> cfloat" where
  "fquot rnd NaN _ = NaN"
| "fquot rnd _ NaN = NaN"
| "fquot rnd (Finite a) (Finite b) = rnd (a / b)"
| "fquot rnd (Finite a) _ = Finite 0"
| "fquot rnd PosInf (Finite b) = (if 0 < b then PosInf else NegInf)"
| "fquot rnd NegInf (Finite b) = (if 0 < b then NegInf else PosInf)"
| "fquot rnd _ _ = NaN"

definition fdiv :: "(real \<Rightarrow> cfloat) \<Rightarrow> cfloat \<Rightarrow> cfloat \<Rightarrow> fault + cfloat" where
  "fdiv rnd a b = (if b = Finite 0 then Inl DivisionByZero else Inr (fquot rnd a b))"

section \<open>The output sink (output\_sink.h)\<close>

datatype OutputMode = Program | Preview

datatype OutputSourceType = None_source | Screen | DirectInput | LegacyBus

datatype OutputTransitionType = Cut | Dissolve | Wipe | Dip

text \<open>The fields \<^verbatim>\<open>x, y, w, h\<close> of \<^verbatim>\<open>CropRegion\<close> carry the prefix \<open>crop_\<close>.\<close>

record CropRegion =
  crop_x :: cfloat
  crop_y :: cfloat
  crop_w :: cfloat
  crop_h :: cfloat

record EdgeBlendParams =
  featherLeft :: cfloat
  featherRight :: cfloat
  featherTop :: cfloat
  featherBottom :: cfloat
  blendGamma :: cfloat
  blendPower :: cfloat
  blackLevel :: cfloat
  gammaR :: cfloat
  gammaG :: cfloat
  gammaB :: cfloat
  warpTopLeftX :: cfloat
  warpTopLeftY :: cfloat
  warpTopMiddleX :: cfloat
  warpTopMiddleY :: cfloat
  warpTopRightX :: cfloat
  warpTopRightY :: cfloat
  warpMiddleLeftX :: cfloat
  warpMiddleLeftY :: cfloat
  warpMiddleRightX :: cfloat
  warpMiddleRightY :: cfloat
  warpBottomLeftX :: cfloat
  warpBottomLeftY :: cfloat
  warpBottomMiddleX :: cfloat
  warpBottomMiddleY :: cfloat
  warpBottomRightX :: cfloat
  warpBottomRightY :: cfloat
  warpCurvature :: cfloat
  lensK1 :: cfloat
  lensK2 :: cfloat
  lensCenterX :: cfloat
  lensCenterY :: cfloat
  activeCorner :: int


text \<open>The default member initialisers of the two structs.\<close>

definition CropRegion_default :: CropRegion where
  "CropRegion_default =
     \<lparr>crop_x = Finite 0, crop_y = Finite 0, crop_w = Finite 1, crop_h = Finite 1\<rparr>"

text \<open>\<^verbatim>\<open>2.2f\<close> is the float nearest to 2.2, which is 9227469 / 2^22.\<close>

definition EdgeBlendParams_default :: EdgeBlendParams where
  "EdgeBlendParams_default =
     \<lparr>featherLeft = Finite 0, featherRight = Finite 0, featherTop = Finite 0,
      featherBottom = Finite 0, blendGamma = Finite (9227469 / 4194304),
      blendPower = Finite 1, blackLevel = Finite 0,
      gammaR = Finite 1, gammaG = Finite 1, gammaB = Finite 1,
      warpTopLeftX = Finite 0, warpTopLeftY = Finite 0,
      warpTopMiddleX = Finite 0, warpTopMiddleY = Finite 0,
      warpTopRightX = Finite 0, warpTopRightY = Finite 0,
      warpMiddleLeftX = Finite 0, warpMiddleLeftY = Finite 0,
      warpMiddleRightX = Finite 0, warpMiddleRightY = Finite 0,
      warpBottomLeftX = Finite 0, warpBottomLeftY = Finite 0,
      warpBottomMiddleX = Finite 0, warpBottomMiddleY = Finite 0,
      warpBottomRightX = Finite 0, warpBottomRightY = Finite 0,
      warpCurvature = Finite 0, lensK1 = Finite 0, lensK2 = Finite 0,
      lensCenterX = Finite (1 / 2), lensCenterY = Finite (1 / 2), activeCorner = 0\<rparr>"

text \<open>The braced lists of the source. \<^verbatim>\<open>{cropX, cropY, cropW, cropH}\<close> names every
  field of a crop. The ten-value list \<^verbatim>\<open>{featherL, ..., gammaB}\<close> names the first ten
  fields of the blend parameters; the other members take their default initialisers.\<close>

definition crop_of :: "cfloat \<Rightarrow> cfloat \<Rightarrow> cfloat \<Rightarrow> cfloat \<Rightarrow> CropRegion" where
  "crop_of cx cy cw ch = \<lparr>crop_x = cx, crop_y = cy, crop_w = cw, crop_h = ch\<rparr>"

record blend10 =
  featherL :: cfloat
  featherR :: cfloat
  featherT :: cfloat
  featherB :: cfloat
  gamma_arg :: cfloat
  power_arg :: cfloat
  blackLevel_arg :: cfloat
  gammaR_arg :: cfloat
  gammaG_arg :: cfloat
  gammaB_arg :: cfloat

definition blend_of :: "blend10 \<Rightarrow> EdgeBlendParams" where
  "blend_of a =
     EdgeBlendParams_default
       \<lparr>featherLeft := featherL a, featherRight := featherR a, featherTop := featherT a,
        featherBottom := featherB a, blendGamma := gamma_arg a, blendPower := power_arg a,
        blackLevel := blackLevel_arg a, gammaR := gammaR_arg a, gammaG := gammaG_arg a,
        gammaB := gammaB_arg a\<rparr>"

text \<open>The data members of \<^verbatim>\<open>OutputSink\<close>, without their trailing underscore. The status
  callback is a function object that no operation below reads; it is left out.\<close>

record OutputSink =
  output_id :: int
  output_mode :: OutputMode
  source_type :: OutputSourceType
  screen_index :: int
  direct_input_index :: int
  current_input :: int
  pending_input :: int
  transition_in_progress :: bool
  transition_progress :: cfloat
  transition_duration_frames :: cfloat
  transition_type :: OutputTransitionType
  current_crop :: CropRegion
  pending_crop :: CropRegion
  current_edge_blend :: EdgeBlendParams
  pending_edge_blend :: EdgeBlendParams
  intensity :: cfloat

definition OutputSink_init :: OutputSink where
  "OutputSink_init =
     \<lparr>output_id = - 1, output_mode = Program, source_type = LegacyBus,
      screen_index = - 1, direct_input_index = - 1,
      current_input = - 1, pending_input = - 1,
      transition_in_progress = False, transition_progress = Finite 0,
      transition_duration_frames = Finite 30, transition_type = Dissolve,
      current_crop = CropRegion_default, pending_crop = CropRegion_default,
      current_edge_blend = EdgeBlendParams_default,
      pending_edge_blend = EdgeBlendParams_default,
      intensity = Finite 1\<rparr>"

subsection \<open>Source assignment\<close>

definition setSourceType :: "OutputSourceType \<Rightarrow> OutputSink \<Rightarrow> OutputSink" where
  "setSourceType ty s = s\<lparr>source_type := ty\<rparr>"

definition setScreenIndex :: "int \<Rightarrow> OutputSink \<Rightarrow> OutputSink" where
  "setScreenIndex idx s = s\<lparr>screen_index := idx, source_type := Screen\<rparr>"

definition setDirectInputIndex :: "int \<Rightarrow> OutputSink \<Rightarrow> OutputSink" where
  "setDirectInputIndex idx s = s\<lparr>direct_input_index := idx, source_type := DirectInput\<rparr>"

definition setLegacyBusMode :: "OutputSink \<Rightarrow> OutputSink" where
  "setLegacyBusMode s =
     s\<lparr>source_type := LegacyBus, screen_index := - 1, direct_input_index := - 1\<rparr>"

definition disableSource :: "OutputSink \<Rightarrow> OutputSink" where
  "disableSource s =
     s\<lparr>source_type := None_source, screen_index := - 1, direct_input_index := - 1\<rparr>"

subsection \<open>Plain setters\<close>

definition setOutputId :: "int \<Rightarrow> OutputSink \<Rightarrow> OutputSink" where
  "setOutputId i s = s\<lparr>output_id := i\<rparr>"

definition setOutputMode :: "OutputMode \<Rightarrow> OutputSink \<Rightarrow> OutputSink" where
  "setOutputMode m s = s\<lparr>output_mode := m\<rparr>"

definition setCurrentInput :: "int \<Rightarrow> OutputSink \<Rightarrow> OutputSink" where
  "setCurrentInput idx s =
     s\<lparr>current_input := idx, source_type := DirectInput, direct_input_index := idx\<rparr>"

definition setPendingInput :: "int \<Rightarrow> OutputSink \<Rightarrow> OutputSink" where
  "setPendingInput idx s = s\<lparr>pending_input := idx\<rparr>"

definition setTransitionDuration :: "cfloat \<Rightarrow> OutputSink \<Rightarrow> OutputSink" where
  "setTransitionDuration fr s = s\<lparr>transition_duration_frames := fr\<rparr>"

definition setTransitionType :: "OutputTransitionType \<Rightarrow> OutputSink \<Rightarrow> OutputSink" where
  "setTransitionType ty s = s\<lparr>transition_type := ty\<rparr>"

definition setIntensity :: "cfloat \<Rightarrow> OutputSink \<Rightarrow> OutputSink" where
  "setIntensity i s = s\<lparr>intensity := std_max (Finite 0) (std_min (Finite 1) i)\<rparr>"

definition setCrop :: "cfloat \<Rightarrow> cfloat \<Rightarrow> cfloat \<Rightarrow> cfloat \<Rightarrow> OutputSink \<Rightarrow> OutputSink" where
  "setCrop cx cy cw ch s = s\<lparr>current_crop := crop_of cx cy cw ch\<rparr>"

definition setPendingCrop :: "cfloat \<Rightarrow> cfloat \<Rightarrow> cfloat \<Rightarrow> cfloat \<Rightarrow> OutputSink \<Rightarrow> OutputSink" where
  "setPendingCrop cx cy cw ch s = s\<lparr>pending_crop := crop_of cx cy cw ch\<rparr>"

text \<open>\<^verbatim>\<open>setEdgeBlend\<close> lists all thirty-two members, so it stores the value it is given.\<close>

definition setEdgeBlend :: "EdgeBlendParams \<Rightarrow> OutputSink \<Rightarrow> OutputSink" where
  "setEdgeBlend b s = s\<lparr>current_edge_blend := b\<rparr>"

definition setPendingEdgeBlend :: "blend10 \<Rightarrow> OutputSink \<Rightarrow> OutputSink" where
  "setPendingEdgeBlend a s = s\<lparr>pending_edge_blend := blend_of a\<rparr>"


subsection \<open>The transition state machine\<close>

definition startTransition ::
  "int \<Rightarrow> OutputTransitionType \<Rightarrow> cfloat \<Rightarrow> OutputSink \<Rightarrow> OutputSink" where
  "startTransition toInput ty durationFrames s =
     (if ty = Cut \<or> fle durationFrames (Finite 0) then
        s\<lparr>current_input := toInput, direct_input_index := toInput,
          source_type := DirectInput, pending_input := - 1,
          transition_in_progress := False, transition_progress := Finite 0\<rparr>
      else
        s\<lparr>pending_input := toInput, transition_type := ty,
          transition_duration_frames := durationFrames,
          transition_in_progress := True, transition_progress := Finite 0\<rparr>)"

text \<open>\<^verbatim>\<open>advanceTransition\<close> returns whether the transition completed in this call. Its
  first statement after the guard divides by the duration.\<close>

definition advanceTransition ::
  "(real \<Rightarrow> cfloat) \<Rightarrow> OutputSink \<Rightarrow> fault + (bool \<times> OutputSink)" where
  "advanceTransition rnd s =
     (if \<not> transition_in_progress s then Inr (False, s)
      else
        (case fdiv rnd (Finite 1) (transition_duration_frames s) of
           Inl e \<Rightarrow> Inl e
         | Inr step \<Rightarrow>
             (let s1 = s\<lparr>transition_progress := fadd rnd (transition_progress s) step\<rparr>
              in if fge (transition_progress s1) (Finite 1) then
                   Inr (True,
                     s1\<lparr>current_input := pending_input s1,
                        direct_input_index := pending_input s1,
                        source_type := DirectInput,
                        current_crop := pending_crop s1,
                        current_edge_blend := pending_edge_blend s1,
                        pending_input := - 1,
                        transition_in_progress := False,
                        transition_progress := Finite 0\<rparr>)
                 else Inr (False, s1))))"

definition cancelTransition :: "OutputSink \<Rightarrow> OutputSink" where
  "cancelTransition s =
     s\<lparr>pending_input := - 1, transition_in_progress := False,
       transition_progress := Finite 0\<rparr>"

definition setTransitionProgress :: "cfloat \<Rightarrow> OutputSink \<Rightarrow> bool \<times> OutputSink" where
  "setTransitionProgress progress s =
     (if \<not> transition_in_progress s then (False, s)
      else
        (let s1 = s\<lparr>transition_progress :=
                      std_max (Finite 0) (std_min (Finite 1) progress)\<rparr>
         in if fge (transition_progress s1) (Finite 1) then
              (True,
                s1\<lparr>current_input := pending_input s1,
                   direct_input_index := pending_input s1,
                   source_type := DirectInput,
                   current_crop := pending_crop s1,
                   current_edge_blend := pending_edge_blend s1,
                   pending_input := - 1,
                   transition_in_progress := False,
                   transition_progress := Finite 0\<rparr>)
            else (True, s1)))"

definition startTBarTransition :: "int \<Rightarrow> OutputTransitionType \<Rightarrow> OutputSink \<Rightarrow> OutputSink" where
  "startTBarTransition toInput ty s =
     s\<lparr>pending_input := toInput, transition_type := ty,
       transition_duration_frames := Finite 0,
       transition_in_progress := True, transition_progress := Finite 0\<rparr>"

definition startTBarTransitionWithCropAndBlend ::
  "int \<Rightarrow> OutputTransitionType \<Rightarrow> cfloat \<Rightarrow> cfloat \<Rightarrow> cfloat \<Rightarrow> cfloat \<Rightarrow> blend10
     \<Rightarrow> OutputSink \<Rightarrow> OutputSink" where
  "startTBarTransitionWithCropAndBlend toInput ty cx cy cw ch a s =
     s\<lparr>pending_input := toInput, pending_crop := crop_of cx cy cw ch,
       pending_edge_blend := blend_of a, transition_type := ty,
       transition_duration_frames := Finite 0,
       transition_in_progress := True, transition_progress := Finite 0\<rparr>"

definition startTransitionWithCrop ::
  "int \<Rightarrow> OutputTransitionType \<Rightarrow> cfloat \<Rightarrow> cfloat \<Rightarrow> cfloat \<Rightarrow> cfloat \<Rightarrow> cfloat
     \<Rightarrow> OutputSink \<Rightarrow> OutputSink" where
  "startTransitionWithCrop toInput ty durationFrames cx cy cw ch s =
     (let s1 = s\<lparr>pending_crop := crop_of cx cy cw ch\<rparr>
      in if ty = Cut \<or> fle durationFrames (Finite 0) then
           s1\<lparr>current_input := toInput, direct_input_index := toInput,
              source_type := DirectInput, current_crop := pending_crop s1,
              pending_input := - 1,
              transition_in_progress := False, transition_progress := Finite 0\<rparr>
         else
           s1\<lparr>pending_input := toInput, transition_type := ty,
              transition_duration_frames := durationFrames,
              transition_in_progress := True, transition_progress := Finite 0\<rparr>)"

definition startTransitionWithCropAndBlend ::
  "int \<Rightarrow> OutputTransitionType \<Rightarrow> cfloat \<Rightarrow> cfloat \<Rightarrow> cfloat \<Rightarrow> cfloat \<Rightarrow> cfloat \<Rightarrow> blend10
     \<Rightarrow> OutputSink \<Rightarrow> OutputSink" where
  "startTransitionWithCropAndBlend toInput ty durationFrames cx cy cw ch a s =
     (let s1 = s\<lparr>pending_crop := crop_of cx cy cw ch, pending_edge_blend := blend_of a\<rparr>
      in if ty = Cut \<or> fle durationFrames (Finite 0) then
           s1\<lparr>current_input := toInput, direct_input_index := toInput,
              source_type := DirectInput, current_crop := pending_crop s1,
              current_edge_blend := pending_edge_blend s1,
              pending_input := - 1,
              transition_in_progress := False, transition_progress := Finite 0\<rparr>
         else
           s1\<lparr>pending_input := toInput, transition_type := ty,
              transition_duration_frames := durationFrames,
              transition_in_progress := True, transition_progress := Finite 0\<rparr>)"

text \<open>\<^verbatim>\<open>advanceTransitionWithCrop\<close> has the body of \<^verbatim>\<open>advanceTransition\<close>.\<close>

definition advanceTransitionWithCrop ::
  "(real \<Rightarrow> cfloat) \<Rightarrow> OutputSink \<Rightarrow> fault + (bool \<times> OutputSink)" where
  "advanceTransitionWithCrop rnd s =
     (if \<not> transition_in_progress s then Inr (False, s)
      else
        (case fdiv rnd (Finite 1) (transition_duration_frames s) of
           Inl e \<Rightarrow> Inl e
         | Inr step \<Rightarrow>
             (let s1 = s\<lparr>transition_progress := fadd rnd (transition_progress s) step\<rparr>
              in if fge (transition_progress s1) (Finite 1) then
                   Inr (True,
                     s1\<lparr>current_input := pending_input s1,
                        direct_input_index := pending_input s1,
                        source_type := DirectInput,
                        current_crop := pending_crop s1,
                        current_edge_blend := pending_edge_blend s1,
                        pending_input := - 1,
                        transition_in_progress := False,
                        transition_progress := Finite 0\<rparr>)
                 else Inr (False, s1))))"

text \<open>What the render path reads, and what a commit installs.\<close>

definition current_triple :: "OutputSink \<Rightarrow> int \<times> CropRegion \<times> EdgeBlendParams" where
  "current_triple s = (current_input s, current_crop s, current_edge_blend s)"

definition pending_triple :: "OutputSink \<Rightarrow> int \<times> CropRegion \<times> EdgeBlendParams" where
  "pending_triple s = (pending_input s, pending_crop s, pending_edge_blend s)"

definition source_assignment :: "OutputSink \<Rightarrow> OutputSourceType \<times> int \<times> int" where
  "source_assignment s = (source_type s, screen_index s, direct_input_index s)"

text \<open>The block that \<^verbatim>\<open>advanceTransition\<close>, \<^verbatim>\<open>advanceTransitionWithCrop\<close> and
  \<^verbatim>\<open>setTransitionProgress\<close> each spell out when the progress has reached the end.\<close>

definition commit :: "OutputSink \<Rightarrow> OutputSink" where
  "commit s =
     s\<lparr>current_input := pending_input s, direct_input_index := pending_input s,
       source_type := DirectInput, current_crop := pending_crop s,
       current_edge_blend := pending_edge_blend s, pending_input := - 1,
       transition_in_progress := False, transition_progress := Finite 0\<rparr>"

text \<open>The invariant of the idle sink: no progress is left over.\<close>

definition idle_progress_zero :: "OutputSink \<Rightarrow> bool" where
  "idle_progress_zero s = (\<not> transition_in_progress s \<longrightarrow> transition_progress s = Finite 0)"

text \<open>The clamp that \<^verbatim>\<open>setTransitionProgress\<close> and \<^verbatim>\<open>setIntensity\<close> write as
  \<^verbatim>\<open>std::max(0.0f, std::min(1.0f, v))\<close>.\<close>

definition clamp01 :: "cfloat \<Rightarrow> cfloat" where
  "clamp01 v = std_max (Finite 0) (std_min (Finite 1) v)"

subsection \<open>Sequences of calls\<close>

text \<open>The engine's per-frame \<^verbatim>\<open>advanceTransition\<close> and the T-bar's
  \<^verbatim>\<open>setTransitionProgress\<close>, in any interleaving. \<open>progress_trace\<close> lists the sink after
  each call; \<open>reaches_end\<close> says that the call tests a progress of 1 or more, and
  \<open>reach_count\<close> counts the calls of a sequence that do.\<close>

datatype progress_call = Advance | SetProgress cfloat

fun progress_step ::
  "(real \<Rightarrow> cfloat) \<Rightarrow> progress_call \<Rightarrow> OutputSink \<Rightarrow> fault + (bool \<times> OutputSink)" where
  "progress_step rnd Advance s = advanceTransition rnd s"
| "progress_step rnd (SetProgress p) s = Inr (setTransitionProgress p s)"

fun progress_trace ::
  "(real \<Rightarrow> cfloat) \<Rightarrow> progress_call list \<Rightarrow> OutputSink \<Rightarrow> fault + OutputSink list" where
  "progress_trace rnd [] s = Inr []"
| "progress_trace rnd (c # cs) s =
     (case progress_step rnd c s of
        Inl e \<Rightarrow> Inl e
      | Inr (_, s') \<Rightarrow>
          (case progress_trace rnd cs s' of Inl e \<Rightarrow> Inl e | Inr tr \<Rightarrow> Inr (s' # tr)))"

fun reaches_end :: "(real \<Rightarrow> cfloat) \<Rightarrow> progress_call \<Rightarrow> OutputSink \<Rightarrow> bool" where
  "reaches_end rnd Advance s =
     (transition_in_progress s \<and>
      (case fdiv rnd (Finite 1) (transition_duration_frames s) of
         Inl e \<Rightarrow> False
       | Inr step \<Rightarrow> fge (fadd rnd (transition_progress s) step) (Finite 1)))"
| "reaches_end rnd (SetProgress p) s =
     (transition_in_progress s \<and>
      fge (std_max (Finite 0) (std_min (Finite 1) p)) (Finite 1))"

fun reach_count :: "(real \<Rightarrow> cfloat) \<Rightarrow> progress_call list \<Rightarrow> OutputSink \<Rightarrow> nat" where
  "reach_count rnd [] s = 0"
| "reach_count rnd (c # cs) s =
     (case progress_step rnd c s of
        Inl e \<Rightarrow> 0
      | Inr (_, s') \<Rightarrow> (if reaches_end rnd c s then 1 else 0) + reach_count rnd cs s')"

text \<open>How often a value differs from its predecessor along a list.\<close>

fun changes :: "'a list \<Rightarrow> nat" where
  "changes (a # b # xs) = (if a = b then 0 else 1) + changes (b # xs)"
| "changes _ = 0"

text \<open>Every public mutator of the class, for the states a sink can reach.\<close>

datatype sink_op =
    SetOutputId int
  | SetOutputMode OutputMode
  | SetSourceType OutputSourceType
  | SetScreenIndex int
  | SetDirectInputIndex int
  | SetLegacyBusMode
  | DisableSource
  | SetCurrentInput int
  | SetPendingInput int
  | SetTransitionDuration cfloat
  | SetTransitionType OutputTransitionType
  | StartTransition int OutputTransitionType cfloat
  | AdvanceTransition
  | CancelTransition
  | SetTransitionProgress cfloat
  | StartTBarTransition int OutputTransitionType
  | StartTBarTransitionWithCropAndBlend int OutputTransitionType cfloat cfloat cfloat cfloat blend10
  | SetIntensity cfloat
  | SetCrop cfloat cfloat cfloat cfloat
  | SetPendingCrop cfloat cfloat cfloat cfloat
  | SetEdgeBlend EdgeBlendParams
  | SetPendingEdgeBlend blend10
  | StartTransitionWithCrop int OutputTransitionType cfloat cfloat cfloat cfloat cfloat
  | StartTransitionWithCropAndBlend int OutputTransitionType cfloat cfloat cfloat cfloat cfloat blend10
  | AdvanceTransitionWithCrop

fun sink_step :: "(real \<Rightarrow> cfloat) \<Rightarrow> sink_op \<Rightarrow> OutputSink \<Rightarrow> fault + OutputSink" where
  "sink_step rnd (SetOutputId i) s = Inr (setOutputId i s)"
| "sink_step rnd (SetOutputMode m) s = Inr (setOutputMode m s)"
| "sink_step rnd (SetSourceType ty) s = Inr (setSourceType ty s)"
| "sink_step rnd (SetScreenIndex i) s = Inr (setScreenIndex i s)"
| "sink_step rnd (SetDirectInputIndex i) s = Inr (setDirectInputIndex i s)"
| "sink_step rnd SetLegacyBusMode s = Inr (setLegacyBusMode s)"
| "sink_step rnd DisableSource s = Inr (disableSource s)"
| "sink_step rnd (SetCurrentInput i) s = Inr (setCurrentInput i s)"
| "sink_step rnd (SetPendingInput i) s = Inr (setPendingInput i s)"
| "sink_step rnd (SetTransitionDuration d) s = Inr (setTransitionDuration d s)"
| "sink_step rnd (SetTransitionType ty) s = Inr (setTransitionType ty s)"
| "sink_step rnd (StartTransition i ty d) s = Inr (startTransition i ty d s)"
| "sink_step rnd AdvanceTransition s =
     (case advanceTransition rnd s of Inl e \<Rightarrow> Inl e | Inr (_, s') \<Rightarrow> Inr s')"
| "sink_step rnd CancelTransition s = Inr (cancelTransition s)"
| "sink_step rnd (SetTransitionProgress p) s = Inr (snd (setTransitionProgress p s))"
| "sink_step rnd (StartTBarTransition i ty) s = Inr (startTBarTransition i ty s)"
| "sink_step rnd (StartTBarTransitionWithCropAndBlend i ty cx cy cw ch a) s =
     Inr (startTBarTransitionWithCropAndBlend i ty cx cy cw ch a s)"
| "sink_step rnd (SetIntensity i) s = Inr (setIntensity i s)"
| "sink_step rnd (SetCrop cx cy cw ch) s = Inr (setCrop cx cy cw ch s)"
| "sink_step rnd (SetPendingCrop cx cy cw ch) s = Inr (setPendingCrop cx cy cw ch s)"
| "sink_step rnd (SetEdgeBlend b) s = Inr (setEdgeBlend b s)"
| "sink_step rnd (SetPendingEdgeBlend a) s = Inr (setPendingEdgeBlend a s)"
| "sink_step rnd (StartTransitionWithCrop i ty d cx cy cw ch) s =
     Inr (startTransitionWithCrop i ty d cx cy cw ch s)"
| "sink_step rnd (StartTransitionWithCropAndBlend i ty d cx cy cw ch a) s =
     Inr (startTransitionWithCropAndBlend i ty d cx cy cw ch a s)"
| "sink_step rnd AdvanceTransitionWithCrop s =
     (case advanceTransitionWithCrop rnd s of Inl e \<Rightarrow> Inl e | Inr (_, s') \<Rightarrow> Inr s')"

fun sink_run :: "(real \<Rightarrow> cfloat) \<Rightarrow> sink_op list \<Rightarrow> OutputSink \<Rightarrow> fault + OutputSink" where
  "sink_run rnd [] s = Inr s"
| "sink_run rnd (a # as) s =
     (case sink_step rnd a s of Inl e \<Rightarrow> Inl e | Inr s' \<Rightarrow> sink_run rnd as s')"

text \<open>Values for the examples: a blend with a feathered left edge, and a crop of the left
  half of the source.\<close>

definition example_blend :: blend10 where
  "example_blend =
     \<lparr>featherL = Finite 32, featherR = Finite 0, featherT = Finite 0, featherB = Finite 0,
      gamma_arg = Finite (9227469 / 4194304), power_arg = Finite 1,
      blackLevel_arg = Finite 0, gammaR_arg = Finite 1, gammaG_arg = Finite 1,
      gammaB_arg = Finite 1\<rparr>"

definition left_half :: CropRegion where
  "left_half = crop_of (Finite 0) (Finite 0) (Finite (1 / 2)) (Finite 1)"


definition dissolve_started :: OutputSink where
  "dissolve_started = startTransition 2 Dissolve (Finite 2) OutputSink_init"

definition cancelled_sink :: OutputSink where
  "cancelled_sink =
     cancelTransition
       (startTransitionWithCropAndBlend 2 Dissolve (Finite 10)
          (Finite 0) (Finite 0) (Finite (1 / 2)) (Finite 1) example_blend OutputSink_init)"


section \<open>Frames and the frame ring buffer (switcher\_frame.h)\<close>

text \<open>An \<^verbatim>\<open>id<MTLTexture>\<close> is a reference to a GPU texture or \<^verbatim>\<open>nil\<close>: a handle with the
  immutable \<^verbatim>\<open>width\<close> and \<^verbatim>\<open>height\<close> properties of the texture, or \<open>None\<close>.\<close>

record MTLTexture =
  tex_handle :: nat
  tex_width :: nat
  tex_height :: nat

record SwitcherFrame =
  texture :: "MTLTexture option"
  timestamp_ns :: "64 word"
  frame_number :: "64 word"
  width :: "32 word"
  height :: "32 word"
  frame_rate :: cfloat
  valid :: bool
  interlaced :: bool
  top_field_first :: bool

definition SwitcherFrame_init :: SwitcherFrame where
  "SwitcherFrame_init =
     \<lparr>texture = None, timestamp_ns = 0, frame_number = 0, width = 0, height = 0,
      frame_rate = Finite 0, valid = False, interlaced = False, top_field_first = True\<rparr>"

definition reset :: "SwitcherFrame \<Rightarrow> SwitcherFrame" where
  "reset f =
     f\<lparr>texture := None, timestamp_ns := 0, frame_number := 0, width := 0, height := 0,
       frame_rate := Finite 0, valid := False, interlaced := False, top_field_first := True\<rparr>"

text \<open>The members of \<^verbatim>\<open>FrameRingBuffer\<close> are \<^verbatim>\<open>size_t\<close> values: naturals below \<open>2 ^ 64\<close>,
  with the wrap-around of every sum and difference written out by \<open>size_t\<close>. Indexing the
  vector out of range and a remainder by zero are undefined in C++: they are faults.\<close>

definition size_t :: "int \<Rightarrow> nat" where
  "size_t i = nat (i mod 2 ^ 64)"

record FrameRingBuffer =
  capacity :: nat
  frames :: "SwitcherFrame list"
  write_idx :: nat
  read_idx :: nat
  count :: nat

definition FrameRingBuffer_init :: "nat \<Rightarrow> FrameRingBuffer" where
  "FrameRingBuffer_init c =
     \<lparr>capacity = c, frames = replicate c SwitcherFrame_init,
      write_idx = 0, read_idx = 0, count = 0\<rparr>"

definition push :: "SwitcherFrame \<Rightarrow> FrameRingBuffer \<Rightarrow> fault + (bool \<times> FrameRingBuffer)" where
  "push frame r =
     (if length (frames r) \<le> write_idx r then Inl IndexOutOfRange
      else if capacity r = 0 then Inl ModuloByZero
      else
        (let r1 = r\<lparr>frames := (frames r)[write_idx r := frame]\<rparr>;
             r2 = r1\<lparr>write_idx := size_t (int (write_idx r1) + 1) mod capacity r1\<rparr>
         in if count r2 < capacity r2 then
              Inr (True, r2\<lparr>count := size_t (int (count r2) + 1)\<rparr>)
            else
              Inr (True, r2\<lparr>read_idx := size_t (int (read_idx r2) + 1) mod capacity r2\<rparr>)))"

definition peekLatest :: "FrameRingBuffer \<Rightarrow> fault + SwitcherFrame option" where
  "peekLatest r =
     (if count r = 0 then Inr None
      else if capacity r = 0 then Inl ModuloByZero
      else
        (let latest =
               size_t (int (size_t (int (write_idx r) + int (capacity r))) - 1) mod capacity r
         in if length (frames r) \<le> latest then Inl IndexOutOfRange
            else Inr (Some (frames r ! latest))))"

definition pop :: "FrameRingBuffer \<Rightarrow> fault + (SwitcherFrame option \<times> FrameRingBuffer)" where
  "pop r =
     (if count r = 0 then Inr (None, r)
      else if length (frames r) \<le> read_idx r then Inl IndexOutOfRange
      else if capacity r = 0 then Inl ModuloByZero
      else
        Inr (Some (frames r ! read_idx r),
             r\<lparr>read_idx := size_t (int (read_idx r) + 1) mod capacity r,
               count := size_t (int (count r) - 1)\<rparr>))"

definition size_rb :: "FrameRingBuffer \<Rightarrow> nat" where
  "size_rb r = count r"

definition empty_rb :: "FrameRingBuffer \<Rightarrow> bool" where
  "empty_rb r = (size_rb r = 0)"

definition clear :: "FrameRingBuffer \<Rightarrow> FrameRingBuffer" where
  "clear r = r\<lparr>frames := map reset (frames r), write_idx := 0, read_idx := 0, count := 0\<rparr>"

text \<open>\<^verbatim>\<open>frames_.resize(capacity)\<close> keeps the first elements and appends default frames;
  every element is reset afterwards.\<close>

definition resize_rb :: "nat \<Rightarrow> FrameRingBuffer \<Rightarrow> FrameRingBuffer" where
  "resize_rb c r =
     r\<lparr>capacity := c,
       frames := map reset (take c (frames r) @ replicate (c - length (frames r)) SwitcherFrame_init),
       write_idx := 0, read_idx := 0, count := 0\<rparr>"

text \<open>A producer pushing a list of frames, and a consumer popping up to \<open>n\<close> frames (it
  stops at the first call that finds the buffer empty).\<close>

fun pushes :: "SwitcherFrame list \<Rightarrow> FrameRingBuffer \<Rightarrow> fault + FrameRingBuffer" where
  "pushes [] r = Inr r"
| "pushes (f # fs) r = (case push f r of Inl e \<Rightarrow> Inl e | Inr (_, r') \<Rightarrow> pushes fs r')"

fun pops :: "nat \<Rightarrow> FrameRingBuffer \<Rightarrow> fault + (SwitcherFrame list \<times> FrameRingBuffer)" where
  "pops 0 r = Inr ([], r)"
| "pops (Suc n) r =
     (case pop r of
        Inl e \<Rightarrow> Inl e
      | Inr (None, r') \<Rightarrow> Inr ([], r')
      | Inr (Some f, r') \<Rightarrow>
          (case pops n r' of Inl e \<Rightarrow> Inl e | Inr (fs, r'') \<Rightarrow> Inr (f # fs, r'')))"

text \<open>The frames held, oldest first, and the representation invariant of the buffer.\<close>

definition held :: "FrameRingBuffer \<Rightarrow> SwitcherFrame list" where
  "held r = map (\<lambda>i. frames r ! ((read_idx r + i) mod capacity r)) [0..<count r]"

definition rb_inv :: "FrameRingBuffer \<Rightarrow> bool" where
  "rb_inv r =
     (0 < capacity r \<and> capacity r \<le> 2 ^ 63 \<and> length (frames r) = capacity r \<and>
      read_idx r < capacity r \<and> count r \<le> capacity r \<and>
      write_idx r = (read_idx r + count r) mod capacity r)"


text \<open>The last \<open>c\<close> elements of a list, and the frame with sequence number \<open>k\<close>.\<close>

definition numbered :: "nat \<Rightarrow> SwitcherFrame" where
  "numbered k = SwitcherFrame_init\<lparr>frame_number := of_nat k, valid := True\<rparr>"

definition newest :: "nat \<Rightarrow> 'a list \<Rightarrow> 'a list" where
  "newest c xs = drop (length xs - c) xs"

text \<open>Any interleaving of the operations of one buffer.\<close>

datatype rb_op = Push SwitcherFrame | Pop | PeekLatest | Clear

fun rb_step :: "rb_op \<Rightarrow> FrameRingBuffer \<Rightarrow> fault + FrameRingBuffer" where
  "rb_step (Push f) r = (case push f r of Inl e \<Rightarrow> Inl e | Inr (_, r') \<Rightarrow> Inr r')"
| "rb_step Pop r = (case pop r of Inl e \<Rightarrow> Inl e | Inr (_, r') \<Rightarrow> Inr r')"
| "rb_step PeekLatest r = (case peekLatest r of Inl e \<Rightarrow> Inl e | Inr _ \<Rightarrow> Inr r)"
| "rb_step Clear r = Inr (clear r)"

fun rb_run :: "rb_op list \<Rightarrow> FrameRingBuffer \<Rightarrow> fault + FrameRingBuffer" where
  "rb_run [] r = Inr r"
| "rb_run (a # as) r = (case rb_step a r of Inl e \<Rightarrow> Inl e | Inr r' \<Rightarrow> rb_run as r')"

section \<open>The texture pool (switcher\_frame.h)\<close>

text \<open>The Metal device is outside the repository. Its allocator is the parameter \<open>alloc\<close>:
  asked for a texture, it answers with a fresh handle or with \<^verbatim>\<open>nil\<close>, and moves to a new
  device state. A texture made from a descriptor has the descriptor's width and height.\<close>

definition newTextureWithDescriptor ::
  "('d \<Rightarrow> nat option \<times> 'd) \<Rightarrow> 'd \<Rightarrow> nat \<Rightarrow> nat \<Rightarrow> MTLTexture option \<times> 'd" where
  "newTextureWithDescriptor alloc dev wd ht =
     (case alloc dev of
        (None, dev') \<Rightarrow> (None, dev')
      | (Some handle, dev') \<Rightarrow> (Some \<lparr>tex_handle = handle, tex_width = wd, tex_height = ht\<rparr>, dev'))"

text \<open>The members \<^verbatim>\<open>width_\<close>, \<^verbatim>\<open>height_\<close> and \<^verbatim>\<open>available_\<close> of \<^verbatim>\<open>TexturePool\<close>.\<close>

record TexturePool =
  pool_width :: "32 word"
  pool_height :: "32 word"
  available :: "MTLTexture list"

text \<open>The constructor's loop: \<open>poolSize\<close> allocations, keeping the textures that are not
  \<^verbatim>\<open>nil\<close>.\<close>

fun preallocate ::
  "('d \<Rightarrow> nat option \<times> 'd) \<Rightarrow> nat \<Rightarrow> nat \<Rightarrow> nat \<Rightarrow> MTLTexture list \<Rightarrow> 'd
     \<Rightarrow> MTLTexture list \<times> 'd" where
  "preallocate alloc wd ht 0 acc dev = (acc, dev)"
| "preallocate alloc wd ht (Suc n) acc dev =
     (case newTextureWithDescriptor alloc dev wd ht of
        (None, dev') \<Rightarrow> preallocate alloc wd ht n acc dev'
      | (Some tex, dev') \<Rightarrow> preallocate alloc wd ht n (acc @ [tex]) dev')"

definition TexturePool_init ::
  "('d \<Rightarrow> nat option \<times> 'd) \<Rightarrow> 'd \<Rightarrow> 32 word \<Rightarrow> 32 word \<Rightarrow> nat \<Rightarrow> TexturePool \<times> 'd" where
  "TexturePool_init alloc dev wd ht poolSize =
     (case preallocate alloc (unat wd) (unat ht) poolSize [] dev of
        (texs, dev') \<Rightarrow> (\<lparr>pool_width = wd, pool_height = ht, available = texs\<rparr>, dev'))"

definition acquire ::
  "('d \<Rightarrow> nat option \<times> 'd) \<Rightarrow> TexturePool \<Rightarrow> 'd \<Rightarrow> MTLTexture option \<times> TexturePool \<times> 'd" where
  "acquire alloc p dev =
     (if available p \<noteq> [] then
        (Some (last (available p)), p\<lparr>available := butlast (available p)\<rparr>, dev)
      else
        (case newTextureWithDescriptor alloc dev (unat (pool_width p)) (unat (pool_height p)) of
           (tex, dev') \<Rightarrow> (tex, p, dev')))"

definition release :: "MTLTexture option \<Rightarrow> TexturePool \<Rightarrow> TexturePool" where
  "release tex p =
     (case tex of
        None \<Rightarrow> p
      | Some t \<Rightarrow>
          if tex_width t = unat (pool_width p) \<and> tex_height t = unat (pool_height p)
          then p\<lparr>available := available p @ [t]\<rparr>
          else p)"

definition resize :: "32 word \<Rightarrow> 32 word \<Rightarrow> TexturePool \<Rightarrow> TexturePool" where
  "resize wd ht p =
     (if wd = pool_width p \<and> ht = pool_height p then p
      else p\<lparr>available := [], pool_width := wd, pool_height := ht\<rparr>)"

datatype pool_op = Acquire | Release "MTLTexture option" | Resize "32 word" "32 word"

fun pool_step ::
  "('d \<Rightarrow> nat option \<times> 'd) \<Rightarrow> pool_op \<Rightarrow> TexturePool \<times> 'd \<Rightarrow> TexturePool \<times> 'd" where
  "pool_step alloc Acquire (p, dev) = snd (acquire alloc p dev)"
| "pool_step alloc (Release tex) (p, dev) = (release tex p, dev)"
| "pool_step alloc (Resize wd ht) (p, dev) = (resize wd ht p, dev)"

definition pool_run ::
  "('d \<Rightarrow> nat option \<times> 'd) \<Rightarrow> pool_op list \<Rightarrow> TexturePool \<times> 'd \<Rightarrow> TexturePool \<times> 'd" where
  "pool_run alloc ops st = foldl (\<lambda>st a. pool_step alloc a st) st ops"

definition matches :: "TexturePool \<Rightarrow> MTLTexture \<Rightarrow> bool" where
  "matches p t = (tex_width t = unat (pool_width p) \<and> tex_height t = unat (pool_height p))"

text \<open>Every texture of the free set has the configured dimensions.\<close>

definition pool_inv :: "TexturePool \<Rightarrow> bool" where
  "pool_inv p = (\<forall>t\<in>set (available p). matches p t)"

text \<open>A device for the examples: it hands out the handles \<open>0, 1, 2, ...\<close> until its budget
  is spent, then \<^verbatim>\<open>nil\<close>.\<close>

definition budget_alloc :: "nat \<times> nat \<Rightarrow> nat option \<times> (nat \<times> nat)" where
  "budget_alloc dev =
     (case dev of (next_handle, budget) \<Rightarrow>
        if budget = 0 then (None, dev) else (Some next_handle, (Suc next_handle, budget - 1)))"


definition hd_texture :: "nat \<Rightarrow> MTLTexture" where
  "hd_texture handle = \<lparr>tex_handle = handle, tex_width = 1920, tex_height = 1080\<rparr>"

definition hd_pool :: "MTLTexture list \<Rightarrow> TexturePool" where
  "hd_pool texs = \<lparr>pool_width = 1920, pool_height = 1080, available = texs\<rparr>"

section \<open>The NDI sink (output\_ndi.h)\<close>

text \<open>The header declares the queue of pre-rendered frames, the configured queue depth and
  the two counters; the bodies of \<^verbatim>\<open>pushFrame\<close>, \<^verbatim>\<open>pushPixelData\<close> and \<^verbatim>\<open>sendLoop\<close> are
  in an implementation file that is not among the sources. The counters are
  \<^verbatim>\<open>uint64_t\<close>; they are naturals here, as no run offers \<open>2 ^ 64\<close> frames.\<close>

record PixelFrame =
  px_data :: "8 word list"
  px_width :: "32 word"
  px_height :: "32 word"
  px_timestamp_ns :: "64 word"
  px_frame_rate :: cfloat
  px_valid :: bool

record NDIOutput =
  async_queue_size :: "32 word"
  running :: bool
  pixel_queue :: "PixelFrame list"
  frames_sent :: nat
  frames_dropped :: nat

definition framesSent :: "NDIOutput \<Rightarrow> nat" where
  "framesSent s = frames_sent s"

definition framesDropped :: "NDIOutput \<Rightarrow> nat" where
  "framesDropped s = frames_dropped s"

text \<open>Modelled from the spec: the body of \<^verbatim>\<open>NDIOutput::pushPixelData\<close> is missing. The spec
  (4.3, 4.5): a push returns false without side effects if the sink is not running or the
  frame is invalid; the queue is bounded by the configured depth; a push when full is
  rejected, the new frame is dropped and counted; otherwise the frame is enqueued.\<close>

definition pushPixelData :: "PixelFrame \<Rightarrow> NDIOutput \<Rightarrow> bool \<times> NDIOutput" where
  "pushPixelData px s =
     (if \<not> running s \<or> \<not> px_valid px then (False, s)
      else if unat (async_queue_size s) \<le> length (pixel_queue s) then
        (False, s\<lparr>frames_dropped := frames_dropped s + 1\<rparr>)
      else (True, s\<lparr>pixel_queue := pixel_queue s @ [px]\<rparr>))"

text \<open>Modelled from the spec: the body of \<^verbatim>\<open>NDIOutput::pushFrame\<close> is missing. The spec
  (4.5): it renders the current crop and edge blend onto the frame's buffer, producing a
  pixel buffer, and enqueues it. The render pass is the opaque parameter \<open>render\<close>.\<close>

definition pushFrame ::
  "(SwitcherFrame \<Rightarrow> PixelFrame) \<Rightarrow> SwitcherFrame \<Rightarrow> NDIOutput \<Rightarrow> bool \<times> NDIOutput" where
  "pushFrame render frame s =
     (if \<not> running s \<or> \<not> valid frame then (False, s)
      else pushPixelData ((render frame)\<lparr>px_valid := True\<rparr>) s)"

text \<open>Modelled from the spec: the body of \<^verbatim>\<open>NDIOutput::sendLoop\<close> is missing. The spec
  (4.5): one round of the send task pops the oldest entry, sends it and increments the sent
  counter; with an empty queue it waits.\<close>

definition sendOne :: "NDIOutput \<Rightarrow> NDIOutput" where
  "sendOne s =
     (case pixel_queue s of
        [] \<Rightarrow> s
      | px # rest \<Rightarrow> s\<lparr>pixel_queue := rest, frames_sent := frames_sent s + 1\<rparr>)"

text \<open>Modelled from the spec: a started sink of queue depth \<open>q\<close> before its first frame, the
  events of a run, and the frames a run offers to a running sink.\<close>

definition ndi_started :: "32 word \<Rightarrow> NDIOutput" where
  "ndi_started q =
     \<lparr>async_queue_size = q, running = True, pixel_queue = [],
      frames_sent = 0, frames_dropped = 0\<rparr>"

datatype ndi_event = PushFrame SwitcherFrame | PushPixelData PixelFrame | SendOne

fun ndi_step :: "(SwitcherFrame \<Rightarrow> PixelFrame) \<Rightarrow> ndi_event \<Rightarrow> NDIOutput \<Rightarrow> NDIOutput" where
  "ndi_step render (PushFrame frame) s = snd (pushFrame render frame s)"
| "ndi_step render (PushPixelData px) s = snd (pushPixelData px s)"
| "ndi_step render SendOne s = sendOne s"

definition ndi_run ::
  "(SwitcherFrame \<Rightarrow> PixelFrame) \<Rightarrow> ndi_event list \<Rightarrow> NDIOutput \<Rightarrow> NDIOutput" where
  "ndi_run render evs s = foldl (\<lambda>s ev. ndi_step render ev s) s evs"

fun offered :: "(SwitcherFrame \<Rightarrow> PixelFrame) \<Rightarrow> ndi_event list \<Rightarrow> PixelFrame list" where
  "offered render [] = []"
| "offered render (PushFrame frame # evs) =
     (if valid frame then (render frame)\<lparr>px_valid := True\<rparr> # offered render evs
      else offered render evs)"
| "offered render (PushPixelData px # evs) =
     (if px_valid px then px # offered render evs else offered render evs)"
| "offered render (SendOne # evs) = offered render evs"

definition stalled :: "ndi_event list \<Rightarrow> bool" where
  "stalled evs = (SendOne \<notin> set evs)"

definition example_render :: "SwitcherFrame \<Rightarrow> PixelFrame" where
  "example_render frame =
     \<lparr>px_data = [], px_width = width frame, px_height = height frame,
      px_timestamp_ns = timestamp_ns frame, px_frame_rate = frame_rate frame,
      px_valid = True\<rparr>"

definition example_px :: "nat \<Rightarrow> PixelFrame" where
  "example_px n =
     \<lparr>px_data = [], px_width = 0, px_height = 0, px_timestamp_ns = of_nat n,
      px_frame_rate = Finite 60, px_valid = True\<rparr>"


text \<open>Eight pre-rendered frames offered in a row.\<close>

definition eight_pushes :: "ndi_event list" where
  "eight_pushes = map (\<lambda>k. PushPixelData (example_px k)) [1, 2, 3, 4, 5, 6, 7, 8]"

section \<open>Properties of the transition state machine\<close>

subsection \<open>Single calls\<close>

lemma clamp01_range: "fle (Finite 0) (clamp01 p) \<and> fle (clamp01 p) (Finite 1)"
  by (cases p) (auto simp: clamp01_def std_max_def std_min_def)

lemma clamp01_cases:
  "clamp01 p = (if flt p (Finite 0) then Finite 0 else if flt p (Finite 1) then p else Finite 1)"
  by (cases p) (auto simp: clamp01_def std_max_def std_min_def)

lemma commit_triple:
  "current_triple (commit s) = pending_triple s \<and> \<not> transition_in_progress (commit s)"
  by (simp add: commit_def current_triple_def pending_triple_def)

lemma advance_idle: "\<not> transition_in_progress s \<Longrightarrow> advanceTransition rnd s = Inr (False, s)"
  by (simp add: advanceTransition_def)

text \<open>A call of \<^verbatim>\<open>advanceTransition\<close> in a running transition returns exactly when the
  duration is not zero; it then either commits or stores the new progress.\<close>

lemma advance_returns:
  assumes "transition_in_progress s"
  shows "(\<exists>r s'. advanceTransition rnd s = Inr (r, s')) \<longleftrightarrow>
           transition_duration_frames s \<noteq> Finite 0"
  using assms by (auto simp: advanceTransition_def fdiv_def Let_def)

lemma advance_result:
  assumes "transition_in_progress s" "advanceTransition rnd s = Inr (r, s')"
  shows "transition_duration_frames s \<noteq> Finite 0 \<and>
         (if r then s' = commit s
          else s' = s\<lparr>transition_progress :=
                        fadd rnd (transition_progress s)
                          (fquot rnd (Finite 1) (transition_duration_frames s))\<rparr>)"
  using assms
  by (auto simp: advanceTransition_def fdiv_def commit_def Let_def split: if_splits)

lemma setprogress_result:
  assumes "transition_in_progress s"
  shows "setTransitionProgress p s =
     (True, if fge (clamp01 p) (Finite 1) then commit s
            else s\<lparr>transition_progress := clamp01 p\<rparr>)"
  using assms by (simp add: setTransitionProgress_def commit_def clamp01_def Let_def)

lemma advanceTransitionWithCrop_eq: "advanceTransitionWithCrop rnd s = advanceTransition rnd s"
  by (simp add: advanceTransitionWithCrop_def advanceTransition_def)

subsection \<open>Sequences of progress calls\<close>

lemma idle_step:
  "\<not> transition_in_progress s \<Longrightarrow>
     progress_step rnd c s = Inr (False, s) \<and> \<not> reaches_end rnd c s"
  by (cases c) (simp_all add: advanceTransition_def setTransitionProgress_def)

lemma idle_trace:
  "\<not> transition_in_progress s \<Longrightarrow>
     progress_trace rnd cs s = Inr (replicate (length cs) s) \<and> reach_count rnd cs s = 0"
  by (induction cs) (simp_all add: idle_step)

lemma progress_step_cases:
  assumes "transition_in_progress s" "progress_step rnd c s = Inr (r, s')"
  shows "if reaches_end rnd c s then s' = commit s
         else transition_in_progress s' \<and> current_triple s' = current_triple s \<and>
              pending_triple s' = pending_triple s"
proof (cases c)
  case Advance
  then show ?thesis
    using assms
    by (auto simp: advanceTransition_def fdiv_def commit_def Let_def current_triple_def
          pending_triple_def split: if_splits)
next
  case (SetProgress p)
  then show ?thesis
    using assms
    by (auto simp: setTransitionProgress_def commit_def Let_def current_triple_def
          pending_triple_def split: if_splits)
qed

lemma changes_const: "\<forall>x\<in>set xs. x = a \<Longrightarrow> changes (a # xs) = 0"
  by (induction xs) auto

lemma changes_switch:
  "\<forall>x\<in>set xs. x = a \<Longrightarrow> \<forall>y\<in>set ys. y = b \<Longrightarrow> ys \<noteq> [] \<Longrightarrow>
     changes (a # xs @ ys) = (if a = b then 0 else 1)"
proof (induction xs)
  case Nil
  then obtain y ys' where "ys = y # ys'" by (cases ys) auto
  with Nil show ?case using changes_const [of ys' b] by auto
next
  case (Cons x xs)
  then show ?case by auto
qed

lemma single_commit:
  assumes "transition_in_progress s" "progress_trace rnd cs s = Inr tr"
    and "reach_count rnd cs s = 1"
  shows "\<exists>k<length cs.
           reaches_end rnd (cs ! k) ((s # tr) ! k) \<and>
           list_all (\<lambda>s'. current_triple s' = current_triple s) (take k tr) \<and>
           list_all (\<lambda>s'. current_triple s' = pending_triple s) (drop k tr)"
  using assms
proof (induction cs arbitrary: s tr)
  case Nil
  then show ?case by simp
next
  case (Cons c cs)
  from Cons.prems(2) obtain r s' tr' where
    st: "progress_step rnd c s = Inr (r, s')" and
    tr': "progress_trace rnd cs s' = Inr tr'" and tr: "tr = s' # tr'"
    by (auto split: sum.splits)
  show ?case
  proof (cases "reaches_end rnd c s")
    case True
    with progress_step_cases [OF Cons.prems(1) st] have s': "s' = commit s" by simp
    then have idle: "\<not> transition_in_progress s'" by (simp add: commit_triple)
    from idle_trace [OF idle, of rnd cs] tr' have "tr' = replicate (length cs) s'" by simp
    then have "list_all (\<lambda>x. current_triple x = pending_triple s) (drop 0 tr)"
      using tr s' by (simp add: commit_triple list_all_iff)
    then show ?thesis using True by (intro exI [of _ 0]) simp
  next
    case False
    with progress_step_cases [OF Cons.prems(1) st]
    have s': "transition_in_progress s'" "current_triple s' = current_triple s"
      "pending_triple s' = pending_triple s" by simp_all
    from Cons.prems(3) st False have "reach_count rnd cs s' = 1" by simp
    from Cons.IH [OF s'(1) tr' this] obtain k where
      k: "k < length cs" "reaches_end rnd (cs ! k) ((s' # tr') ! k)"
        "list_all (\<lambda>x. current_triple x = current_triple s') (take k tr')"
        "list_all (\<lambda>x. current_triple x = pending_triple s') (drop k tr')"
      by blast
    then show ?thesis
      using s' tr by (intro exI [of _ "Suc k"]) simp
  qed
qed

lemma trace_length: "progress_trace rnd cs s = Inr tr \<Longrightarrow> length tr = length cs"
  by (induction cs arbitrary: s tr) (auto split: sum.splits)

text \<open>With a duration other than zero no call of the sequence faults: the run has a
  trace.\<close>

lemma progress_step_total:
  assumes "transition_duration_frames s \<noteq> Finite 0"
  shows "\<exists>r s'. progress_step rnd c s = Inr (r, s') \<and>
           transition_duration_frames s' = transition_duration_frames s"
proof (cases c)
  case Advance
  then show ?thesis
    using assms by (auto simp: advanceTransition_def fdiv_def Let_def)
next
  case (SetProgress p)
  then show ?thesis
    by (auto simp: setTransitionProgress_def Let_def)
qed

lemma trace_total:
  "transition_duration_frames s \<noteq> Finite 0 \<Longrightarrow> \<exists>tr. progress_trace rnd cs s = Inr tr"
proof (induction cs arbitrary: s)
  case Nil
  then show ?case by simp
next
  case (Cons c cs)
  from progress_step_total [OF Cons.prems, of rnd c] obtain r s' where
    st: "progress_step rnd c s = Inr (r, s')"
      "transition_duration_frames s' = transition_duration_frames s"
    by blast
  with Cons.prems have "transition_duration_frames s' \<noteq> Finite 0" by simp
  from Cons.IH [OF this] st(1) show ?case by auto
qed

lemma dissolve_started_simps:
  "transition_in_progress dissolve_started"
  "transition_duration_frames dissolve_started = Finite 2"
  "current_triple dissolve_started = (- 1, CropRegion_default, EdgeBlendParams_default)"
  "pending_triple dissolve_started = (2, CropRegion_default, EdgeBlendParams_default)"
  by (simp_all add: dissolve_started_def startTransition_def OutputSink_init_def
        current_triple_def pending_triple_def)

text \<open>
  Claim C1. Take a sink in a running transition and any sequence of
  \<^verbatim>\<open>advanceTransition\<close> and \<^verbatim>\<open>setTransitionProgress\<close> calls that returns, in which the
  progress reaches 1 or more exactly once. Then there is one call \<open>k\<close>, the one that sees
  the progress at 1 or more, such that after every earlier call the triple (current input,
  current crop, current edge blend) is the one the sequence started with, and after call
  \<open>k\<close> and every later call it is the staged triple (pending input, pending crop, pending
  edge blend) of the start: the three components are replaced together, in that call and
  in no other. Along the whole sequence the value of the triple changes once, unless the
  staged triple equals the current one, in which case replacing it changes nothing.
\<close>

theorem transition_commits_once:
  assumes "transition_in_progress s" "progress_trace rnd cs s = Inr tr"
    and "reach_count rnd cs s = 1"
  shows "\<exists>k<length cs.
           reaches_end rnd (cs ! k) ((s # tr) ! k) \<and>
           list_all (\<lambda>s'. current_triple s' = current_triple s) (take k tr) \<and>
           list_all (\<lambda>s'. current_triple s' = pending_triple s) (drop k tr) \<and>
           changes (map current_triple (s # tr)) =
             (if current_triple s = pending_triple s then 0 else 1)"
proof -
  from single_commit [OF assms] obtain k where
    k: "k < length cs" "reaches_end rnd (cs ! k) ((s # tr) ! k)"
      "list_all (\<lambda>s'. current_triple s' = current_triple s) (take k tr)"
      "list_all (\<lambda>s'. current_triple s' = pending_triple s) (drop k tr)"
    by blast
  have len: "length tr = length cs" using assms(2) by (rule trace_length)
  have "map current_triple (s # tr) =
          current_triple s # map current_triple (take k tr) @ map current_triple (drop k tr)"
    by (simp flip: map_append)
  moreover have "\<forall>x\<in>set (map current_triple (take k tr)). x = current_triple s"
    using k(3) by (auto simp: list_all_iff)
  moreover have "\<forall>x\<in>set (map current_triple (drop k tr)). x = pending_triple s"
    using k(4) by (auto simp: list_all_iff)
  moreover have "map current_triple (drop k tr) \<noteq> []" using k(1) len by simp
  ultimately have "changes (map current_triple (s # tr)) =
      (if current_triple s = pending_triple s then 0 else 1)"
    using changes_switch by metis
  with k show ?thesis by blast
qed

text \<open>The dissolve to input 2 over two frames, driven by an advance, a T-bar move to one
  quarter and two more advances: the fourth call commits.\<close>

theorem transition_commits_once_witness:
  "transition_in_progress dissolve_started \<and>
   reach_count Finite [Advance, SetProgress (Finite (1 / 4)), Advance, Advance]
     dissolve_started = 1 \<and>
   (\<exists>tr. progress_trace Finite [Advance, SetProgress (Finite (1 / 4)), Advance, Advance]
           dissolve_started = Inr tr \<and>
         (\<exists>k<4. list_all (\<lambda>s'. current_triple s' =
                           (- 1, CropRegion_default, EdgeBlendParams_default)) (take k tr) \<and>
                 list_all (\<lambda>s'. current_triple s' =
                           (2, CropRegion_default, EdgeBlendParams_default)) (drop k tr)) \<and>
         changes (map current_triple (dissolve_started # tr)) = 1)"
proof -
  let ?cs = "[Advance, SetProgress (Finite (1 / 4)), Advance, Advance]"
  have h1: "transition_in_progress dissolve_started" by (rule dissolve_started_simps)
  have h3: "reach_count Finite ?cs dissolve_started = 1"
    by (simp add: dissolve_started_def startTransition_def OutputSink_init_def
          advanceTransition_def setTransitionProgress_def fdiv_def fge_def std_max_def
          std_min_def Let_def)
  obtain tr where h2: "progress_trace Finite ?cs dissolve_started = Inr tr"
    using trace_total [of dissolve_started Finite ?cs] by (auto simp: dissolve_started_simps)
  from transition_commits_once [OF h1 h2 h3] obtain k where
    k: "k < length ?cs"
      "list_all (\<lambda>s'. current_triple s' = current_triple dissolve_started) (take k tr)"
      "list_all (\<lambda>s'. current_triple s' = pending_triple dissolve_started) (drop k tr)"
      "changes (map current_triple (dissolve_started # tr)) =
         (if current_triple dissolve_started = pending_triple dissolve_started then 0 else 1)"
    by blast
  have k4: "k < 4" using k(1) by simp
  have ch: "changes (map current_triple (dissolve_started # tr)) = 1"
    using k(4) by (simp add: dissolve_started_simps)
  show ?thesis
    using h1 h2 h3 k4 ch k(2,3) unfolding dissolve_started_simps by blast
qed


subsection \<open>Immediate commits\<close>




subsection \<open>Advancing a T-bar transition\<close>

text \<open>
  Claim C3. \<^verbatim>\<open>startTBarTransition\<close> stores the duration 0 and sets the transition
  running. \<^verbatim>\<open>advanceTransition\<close> tests only that a transition is running before it
  evaluates \<^verbatim>\<open>1.0f / transition_duration_frames_\<close>: called on that state, from any sink
  and for any target and type, it divides by zero. The claim asks for a guard that turns
  this call into an immediate commit; the function has none.
\<close>

theorem tbar_advance_divides_by_zero:
  "advanceTransition rnd (startTBarTransition toInput ty s) = Inl DivisionByZero"
  by (simp add: advanceTransition_def startTBarTransition_def fdiv_def)

subsection \<open>Cancelling\<close>

text \<open>
  Claim C6, as amended. \<^verbatim>\<open>cancelTransition\<close>, on a sink in a running transition or
  not, discards the pending target (the pending input becomes \<open>-1\<close>), leaves the sink idle
  with progress 0, and leaves the current input, the current crop and the current edge
  blend (and the intensity) exactly as they were before the call.
\<close>

theorem cancel_transition_effect:
  "pending_input (cancelTransition s) = - 1 \<and>
   \<not> transition_in_progress (cancelTransition s) \<and>
   transition_progress (cancelTransition s) = Finite 0 \<and>
   current_input (cancelTransition s) = current_input s \<and>
   current_crop (cancelTransition s) = current_crop s \<and>
   current_edge_blend (cancelTransition s) = current_edge_blend s \<and>
   current_triple (cancelTransition s) = current_triple s \<and>
   intensity (cancelTransition s) = intensity s"
  by (simp add: cancelTransition_def current_triple_def)

text \<open>Claim C6 as stated fails on the pending crop and the pending blend: the function
  assigns neither. A dissolve to input 2 with the left half and a feathered blend staged
  is cancelled: \<^verbatim>\<open>pendingCrop()\<close> and \<^verbatim>\<open>pendingEdgeBlend()\<close> still return the staged
  values, which differ from the current ones, and the first advance of a following
  one-frame dissolve to input 3, started without any crop or blend, installs them.\<close>

theorem cancel_keeps_pending_crop_and_blend:
  "transition_in_progress
     (startTransitionWithCropAndBlend 2 Dissolve (Finite 10)
        (Finite 0) (Finite 0) (Finite (1 / 2)) (Finite 1) example_blend OutputSink_init) \<and>
   pending_crop cancelled_sink = left_half \<and>
   pending_edge_blend cancelled_sink = blend_of example_blend \<and>
   current_crop cancelled_sink = CropRegion_default \<and>
   CropRegion_default \<noteq> left_half \<and>
   current_edge_blend cancelled_sink = EdgeBlendParams_default \<and>
   EdgeBlendParams_default \<noteq> blend_of example_blend \<and>
   advanceTransition Finite (startTransition 3 Dissolve (Finite 1) cancelled_sink)
     = Inr (True, commit (startTransition 3 Dissolve (Finite 1) cancelled_sink)) \<and>
   current_triple (commit (startTransition 3 Dissolve (Finite 1) cancelled_sink))
     = (3, left_half, blend_of example_blend)"
  by (simp add: cancelled_sink_def cancelTransition_def startTransitionWithCropAndBlend_def
        startTransition_def advanceTransition_def commit_def fdiv_def fge_def Let_def
        OutputSink_init_def left_half_def crop_of_def CropRegion_default_def
        EdgeBlendParams_default_def blend_of_def example_blend_def current_triple_def)

subsection \<open>Source assignment\<close>

text \<open>
  Claim C7, as amended. No transition operation changes the screen index.
  \<^verbatim>\<open>cancelTransition\<close>, a \<^verbatim>\<open>startTransition\<close> that starts a timed transition, and a
  \<^verbatim>\<open>setTransitionProgress\<close> or \<^verbatim>\<open>advanceTransition\<close> call that does not complete the
  transition leave the source type, the screen index and the direct input index as they
  were. Every commit (a cut or a non-positive duration in \<^verbatim>\<open>startTransition\<close>, a
  \<^verbatim>\<open>setTransitionProgress\<close> or \<^verbatim>\<open>advanceTransition\<close> call that completes the transition)
  sets the source type to \<^verbatim>\<open>DirectInput\<close> and the direct input index to the input it
  commits.
\<close>

theorem source_assignment_under_transitions:
  "source_assignment (cancelTransition s) = source_assignment s \<and>
   source_assignment (startTransition toInput ty durationFrames s) =
     (if ty = Cut \<or> fle durationFrames (Finite 0)
      then (DirectInput, screen_index s, toInput) else source_assignment s) \<and>
   source_assignment (snd (setTransitionProgress p s)) =
     (if transition_in_progress s \<and> fge (clamp01 p) (Finite 1)
      then (DirectInput, screen_index s, pending_input s) else source_assignment s) \<and>
   (\<forall>r s'. advanceTransition rnd s = Inr (r, s') \<longrightarrow>
      source_assignment s' =
        (if r then (DirectInput, screen_index s, pending_input s) else source_assignment s))"
  by (auto simp: source_assignment_def cancelTransition_def startTransition_def clamp01_def
        setTransitionProgress_def advanceTransition_def fdiv_def Let_def split: if_splits)

text \<open>A one-frame dissolve to input 2 on a fresh sink: starting it keeps the legacy bus
  assignment, the advance that completes it assigns direct input 2.\<close>

theorem source_assignment_under_transitions_witness:
  "advanceTransition Finite (startTransition 2 Dissolve (Finite 1) OutputSink_init)
     = Inr (True, commit (startTransition 2 Dissolve (Finite 1) OutputSink_init)) \<and>
   source_assignment (commit (startTransition 2 Dissolve (Finite 1) OutputSink_init))
     = (DirectInput, - 1, 2) \<and>
   source_assignment (startTransition 2 Dissolve (Finite 1) OutputSink_init)
     = (LegacyBus, - 1, - 1)"
proof -
  let ?s = "startTransition 2 Dissolve (Finite 1) OutputSink_init"
  have h: "advanceTransition Finite ?s = Inr (True, commit ?s)"
    by (simp add: advanceTransition_def startTransition_def OutputSink_init_def fdiv_def
          fge_def commit_def Let_def)
  have f: "screen_index ?s = - 1" "pending_input ?s = 2"
    "source_assignment OutputSink_init = (LegacyBus, - 1, - 1)"
    by (simp_all add: startTransition_def OutputSink_init_def source_assignment_def)
  from source_assignment_under_transitions [of ?s 2 Dissolve "Finite 1" NaN Finite] h
  have a: "source_assignment (commit ?s) =
      (if True then (DirectInput, screen_index ?s, pending_input ?s) else source_assignment ?s)"
    by blast
  from source_assignment_under_transitions [of OutputSink_init 2 Dissolve "Finite 1" NaN Finite]
  have b: "source_assignment ?s = source_assignment OutputSink_init"
    by simp
  from a b h f show ?thesis by simp
qed

text \<open>Claim C7 as stated fails at every commit: a cut to input 2 on a fresh sink moves the
  assignment from the legacy bus to direct input 2, and so does the
  \<^verbatim>\<open>setTransitionProgress\<close> call that completes a dissolve.\<close>

theorem commit_changes_source_assignment:
  "source_assignment OutputSink_init = (LegacyBus, - 1, - 1) \<and>
   source_assignment (startTransition 2 Cut (Finite 0) OutputSink_init) = (DirectInput, - 1, 2) \<and>
   transition_in_progress (startTransition 2 Dissolve (Finite 1) OutputSink_init) \<and>
   source_assignment (startTransition 2 Dissolve (Finite 1) OutputSink_init)
     = (LegacyBus, - 1, - 1) \<and>
   source_assignment
     (snd (setTransitionProgress (Finite 1) (startTransition 2 Dissolve (Finite 1) OutputSink_init)))
     = (DirectInput, - 1, 2)"
  by (simp add: source_assignment_def startTransition_def setTransitionProgress_def
        OutputSink_init_def std_max_def std_min_def fge_def Let_def)

subsection \<open>Manual progress\<close>

text \<open>
  Claim C8. For every float \<open>p\<close>, NaN and the infinities included, the value that
  \<^verbatim>\<open>setTransitionProgress(p)\<close> works with lies in \<open>[0, 1]\<close>: it is 0 for \<open>p < 0\<close>, \<open>p\<close>
  itself for \<open>0 \<le> p < 1\<close>, and 1 otherwise. In a running transition the call returns
  true; if the clamped value is 1 or more it commits, and the sink it leaves is the very
  sink that a completing \<^verbatim>\<open>advanceTransition\<close> leaves (the current triple replaced by the
  pending one, idle); otherwise it stores the clamped value as the progress and changes
  nothing else. On an idle sink \<^verbatim>\<open>setTransitionProgress\<close> and \<^verbatim>\<open>advanceTransition\<close>
  return false and leave the sink as it is.
\<close>

theorem set_progress_clamps_and_commits:
  "(transition_in_progress s \<longrightarrow>
      fle (Finite 0) (clamp01 p) \<and> fle (clamp01 p) (Finite 1) \<and>
      clamp01 p = (if flt p (Finite 0) then Finite 0
                   else if flt p (Finite 1) then p else Finite 1) \<and>
      setTransitionProgress p s =
        (True, if fge (clamp01 p) (Finite 1) then commit s
               else s\<lparr>transition_progress := clamp01 p\<rparr>) \<and>
      (\<forall>s'. advanceTransition rnd s = Inr (True, s') \<longrightarrow> s' = commit s) \<and>
      current_triple (commit s) = pending_triple s \<and>
      \<not> transition_in_progress (commit s)) \<and>
   (\<not> transition_in_progress s \<longrightarrow>
      setTransitionProgress p s = (False, s) \<and> advanceTransition rnd s = Inr (False, s))"
proof -
  have adv: "s' = commit s" if "transition_in_progress s" "advanceTransition rnd s = Inr (True, s')"
    for s'
    using advance_result [OF that] by simp
  have idle: "setTransitionProgress p s = (False, s) \<and> advanceTransition rnd s = Inr (False, s)"
    if "\<not> transition_in_progress s"
    using that by (simp add: setTransitionProgress_def advanceTransition_def)
  show ?thesis
    using clamp01_range [of p] clamp01_cases [of p] adv idle commit_triple [of s]
      setprogress_result [of s p]
    by simp
qed

text \<open>The two-frame dissolve under T-bar values above 1, NaN, inside the range and below 0,
  and the same calls on an idle sink.\<close>

theorem set_progress_clamps_and_commits_witness:
  "transition_in_progress dissolve_started \<and>
   setTransitionProgress (Finite (3 / 2)) dissolve_started = (True, commit dissolve_started) \<and>
   setTransitionProgress NaN dissolve_started = (True, commit dissolve_started) \<and>
   setTransitionProgress (Finite (1 / 4)) dissolve_started
     = (True, dissolve_started\<lparr>transition_progress := Finite (1 / 4)\<rparr>) \<and>
   setTransitionProgress (Finite (- 2)) dissolve_started
     = (True, dissolve_started\<lparr>transition_progress := Finite 0\<rparr>) \<and>
   current_triple (commit dissolve_started)
     = (2, CropRegion_default, EdgeBlendParams_default) \<and>
   \<not> transition_in_progress OutputSink_init \<and>
   setTransitionProgress (Finite (3 / 2)) OutputSink_init = (False, OutputSink_init) \<and>
   advanceTransition Finite OutputSink_init = Inr (False, OutputSink_init)"
proof -
  have h1: "transition_in_progress dissolve_started" by (rule dissolve_started_simps)
  have h2: "\<not> transition_in_progress OutputSink_init" by (simp add: OutputSink_init_def)
  show ?thesis
    using h1 h2 set_progress_clamps_and_commits [of dissolve_started "Finite (3 / 2)" Finite]
      set_progress_clamps_and_commits [of dissolve_started NaN Finite]
      set_progress_clamps_and_commits [of dissolve_started "Finite (1 / 4)" Finite]
      set_progress_clamps_and_commits [of dissolve_started "Finite (- 2)" Finite]
      set_progress_clamps_and_commits [of OutputSink_init "Finite (3 / 2)" Finite]
    by (simp add: dissolve_started_simps fge_def)
qed

subsection \<open>No stale progress on an idle sink\<close>

lemma sink_step_inv:
  assumes "idle_progress_zero s" "sink_step rnd a s = Inr s'"
  shows "idle_progress_zero s'"
  using assms
  by (cases a)
     (auto simp: idle_progress_zero_def setOutputId_def setOutputMode_def setSourceType_def
        setScreenIndex_def setDirectInputIndex_def setLegacyBusMode_def disableSource_def
        setCurrentInput_def setPendingInput_def setTransitionDuration_def setTransitionType_def
        setIntensity_def setCrop_def setPendingCrop_def setEdgeBlend_def setPendingEdgeBlend_def
        startTransition_def advanceTransition_def cancelTransition_def
        setTransitionProgress_def startTBarTransition_def startTBarTransitionWithCropAndBlend_def
        startTransitionWithCrop_def startTransitionWithCropAndBlend_def
        advanceTransitionWithCrop_def fdiv_def Let_def split: if_splits)

lemma sink_run_inv:
  "idle_progress_zero s \<Longrightarrow> sink_run rnd ops s = Inr s' \<Longrightarrow> idle_progress_zero s'"
proof (induction ops arbitrary: s)
  case Nil
  then show ?case by simp
next
  case (Cons a ops)
  then show ?case by (auto split: sum.splits dest: sink_step_inv)
qed

text \<open>
  Claim C10. A fresh sink is idle with progress 0. In every state that a sink reaches from
  there through any sequence of its public operations (every call of the sequence
  returning), \<^verbatim>\<open>transition_in_progress_ == false\<close> implies \<^verbatim>\<open>transition_progress_ == 0\<close>,
  so \<^verbatim>\<open>transitionProgress()\<close> reports 0 on an idle sink. Each transition operation
  preserves the invariant: \<^verbatim>\<open>startTransition\<close>, its \<^verbatim>\<open>WithCrop\<close> and
  \<^verbatim>\<open>WithCropAndBlend\<close> variants, both T-bar starts, \<^verbatim>\<open>advanceTransition\<close> and
  \<^verbatim>\<open>advanceTransitionWithCrop\<close> whenever they return, \<^verbatim>\<open>setTransitionProgress\<close> and
  \<^verbatim>\<open>cancelTransition\<close>.
\<close>

theorem idle_progress_is_zero:
  "idle_progress_zero OutputSink_init \<and>
   (\<forall>s'. sink_run rnd ops OutputSink_init = Inr s' \<longrightarrow>
      \<not> transition_in_progress s' \<longrightarrow> transition_progress s' = Finite 0) \<and>
   (idle_progress_zero s \<longrightarrow>
      idle_progress_zero (startTransition toInput ty d s) \<and>
      idle_progress_zero (startTransitionWithCrop toInput ty d cx cy cw ch s) \<and>
      idle_progress_zero (startTransitionWithCropAndBlend toInput ty d cx cy cw ch a s) \<and>
      idle_progress_zero (startTBarTransition toInput ty s) \<and>
      idle_progress_zero (startTBarTransitionWithCropAndBlend toInput ty cx cy cw ch a s) \<and>
      (\<forall>r s'. advanceTransition rnd s = Inr (r, s') \<longrightarrow> idle_progress_zero s') \<and>
      (\<forall>r s'. advanceTransitionWithCrop rnd s = Inr (r, s') \<longrightarrow> idle_progress_zero s') \<and>
      idle_progress_zero (snd (setTransitionProgress p s)) \<and>
      idle_progress_zero (cancelTransition s))"
proof -
  have init: "idle_progress_zero OutputSink_init"
    by (simp add: idle_progress_zero_def OutputSink_init_def)
  have reach: "transition_progress s' = Finite 0"
    if "sink_run rnd ops OutputSink_init = Inr s'" "\<not> transition_in_progress s'" for s'
    using sink_run_inv [OF init that(1)] that(2) by (simp add: idle_progress_zero_def)
  have step: "idle_progress_zero s'" if "idle_progress_zero s" "sink_step rnd b s = Inr s'"
    for b s'
    using that by (rule sink_step_inv)
  have ops: "idle_progress_zero (startTransition toInput ty d s)"
    "idle_progress_zero (startTransitionWithCrop toInput ty d cx cy cw ch s)"
    "idle_progress_zero (startTransitionWithCropAndBlend toInput ty d cx cy cw ch a s)"
    "idle_progress_zero (startTBarTransition toInput ty s)"
    "idle_progress_zero (startTBarTransitionWithCropAndBlend toInput ty cx cy cw ch a s)"
    "idle_progress_zero (snd (setTransitionProgress p s))"
    "idle_progress_zero (cancelTransition s)" if "idle_progress_zero s"
    using step [OF that, of "StartTransition toInput ty d"]
      step [OF that, of "StartTransitionWithCrop toInput ty d cx cy cw ch"]
      step [OF that, of "StartTransitionWithCropAndBlend toInput ty d cx cy cw ch a"]
      step [OF that, of "StartTBarTransition toInput ty"]
      step [OF that, of "StartTBarTransitionWithCropAndBlend toInput ty cx cy cw ch a"]
      step [OF that, of "SetTransitionProgress p"]
      step [OF that, of CancelTransition]
    by simp_all
  have adv: "idle_progress_zero s'"
    if "idle_progress_zero s" "advanceTransition rnd s = Inr (r, s')" for r s'
    using step [OF that(1), of AdvanceTransition s'] that(2) by simp
  have adv2: "idle_progress_zero s'"
    if "idle_progress_zero s" "advanceTransitionWithCrop rnd s = Inr (r, s')" for r s'
    using step [OF that(1), of AdvanceTransitionWithCrop s'] that(2) by simp
  show ?thesis
    using init reach ops adv adv2 by blast
qed

text \<open>A dissolve that is started, advanced, moved by the T-bar and cancelled.\<close>

theorem idle_progress_is_zero_witness:
  "(\<exists>s. sink_run Finite
           [StartTransition 2 Dissolve (Finite 2), AdvanceTransition,
            SetTransitionProgress (Finite (1 / 2)), CancelTransition] OutputSink_init = Inr s \<and>
        \<not> transition_in_progress s \<and> transition_progress s = Finite 0) \<and>
   idle_progress_zero (cancelTransition OutputSink_init)"
proof -
  let ?ops = "[StartTransition 2 Dissolve (Finite 2), AdvanceTransition,
            SetTransitionProgress (Finite (1 / 2)), CancelTransition]"
  obtain s where run: "sink_run Finite ?ops OutputSink_init = Inr s"
    and idle: "\<not> transition_in_progress s"
    by (simp add: startTransition_def advanceTransition_def setTransitionProgress_def
          cancelTransition_def OutputSink_init_def fdiv_def fge_def std_max_def std_min_def
          Let_def)
  from idle_progress_is_zero [of Finite ?ops OutputSink_init] run idle
  have "transition_progress s = Finite 0" "idle_progress_zero (cancelTransition OutputSink_init)"
    by blast+
  with run idle show ?thesis by blast
qed


section \<open>Properties of the frame ring buffer\<close>

subsection \<open>Index arithmetic\<close>

lemma size_t_id: "0 \<le> i \<Longrightarrow> i < 2 ^ 64 \<Longrightarrow> size_t i = nat i"
  by (simp add: size_t_def)

lemma size_t_nat: "n < 2 ^ 64 \<Longrightarrow> size_t (int n) = n"
  by (simp add: size_t_def)

lemma push_simp:
  assumes "rb_inv r"
  shows "push f r = Inr (True,
     if count r < capacity r
     then r\<lparr>frames := (frames r)[write_idx r := f],
            write_idx := (write_idx r + 1) mod capacity r, count := count r + 1\<rparr>
     else r\<lparr>frames := (frames r)[write_idx r := f],
            write_idx := (write_idx r + 1) mod capacity r,
            read_idx := (read_idx r + 1) mod capacity r\<rparr>)"
proof -
  from assms have c: "0 < capacity r" "capacity r \<le> 2 ^ 63" "length (frames r) = capacity r"
    "read_idx r < capacity r" "count r \<le> capacity r" "write_idx r < capacity r"
    by (auto simp: rb_inv_def)
  have w: "size_t (int (write_idx r) + 1) = write_idx r + 1"
    using c by (simp add: size_t_def nat_add_distrib)
  have rd: "size_t (int (read_idx r) + 1) = read_idx r + 1"
    using c by (simp add: size_t_def nat_add_distrib)
  have ct: "size_t (int (count r) + 1) = count r + 1"
    using c by (simp add: size_t_def nat_add_distrib)
  show ?thesis
    using c by (simp add: push_def Let_def w rd ct)
qed

text \<open>With capacity 0 the constructor makes an empty vector, and the first statement of
  \<^verbatim>\<open>push\<close> indexes it.\<close>

lemma push_capacity_zero: "push f (FrameRingBuffer_init 0) = Inl IndexOutOfRange"
  by (simp add: push_def FrameRingBuffer_init_def)

lemma mod_shift_le:
  fixes c :: nat
  assumes "i \<le> j" "j < c" "(r + i) mod c = (r + j) mod c"
  shows "i = j"
proof -
  have "(r + j) mod c = (r + i) mod c" using assms by simp
  moreover have "r + i \<le> r + j" using assms by simp
  ultimately have "c dvd (r + j) - (r + i)"
    using mod_eq_dvd_iff_nat [of "r + i" "r + j" c] by blast
  then have "c dvd j - i" by simp
  moreover have "j - i < c" using assms by simp
  ultimately have "j - i = 0" using nat_dvd_not_less by blast
  then show ?thesis using assms by simp
qed

lemma mod_shift_inj:
  fixes c :: nat
  assumes "i < c" "j < c" "(r + i) mod c = (r + j) mod c"
  shows "i = j"
proof (cases "i \<le> j")
  case True
  then show ?thesis using assms mod_shift_le by blast
next
  case False
  then have "j \<le> i" by simp
  then have "j = i" using assms mod_shift_le [of j i c r] by simp
  then show ?thesis by simp
qed

lemma held_push_notfull:
  assumes "rb_inv r" "count r < capacity r"
  shows "held (r\<lparr>frames := (frames r)[write_idx r := f],
            write_idx := (write_idx r + 1) mod capacity r, count := count r + 1\<rparr>)
         = held r @ [f]"
proof -
  from assms have c: "0 < capacity r" "length (frames r) = capacity r"
    "read_idx r < capacity r" "write_idx r = (read_idx r + count r) mod capacity r"
    by (auto simp: rb_inv_def)
  have ne: "(read_idx r + i) mod capacity r \<noteq> write_idx r" if "i < count r" for i
    using that assms(2) c(4) mod_shift_inj [of i "capacity r" "count r" "read_idx r"] by auto
  have "map (\<lambda>i. (frames r)[write_idx r := f] ! ((read_idx r + i) mod capacity r)) [0..<count r]
      = map (\<lambda>i. frames r ! ((read_idx r + i) mod capacity r)) [0..<count r]"
    using ne by (intro map_cong refl nth_list_update_neq) (auto dest: not_sym)
  moreover have "(frames r)[write_idx r := f] ! ((read_idx r + count r) mod capacity r) = f"
    using c by simp
  ultimately show ?thesis
    by (simp add: held_def)
qed

lemma held_push_full:
  assumes "rb_inv r" "count r = capacity r"
  shows "held (r\<lparr>frames := (frames r)[write_idx r := f],
            write_idx := (write_idx r + 1) mod capacity r,
            read_idx := (read_idx r + 1) mod capacity r\<rparr>)
         = tl (held r) @ [f]"
proof -
  from assms have c: "0 < capacity r" "length (frames r) = capacity r"
    "read_idx r < capacity r" "write_idx r = read_idx r"
    by (auto simp: rb_inv_def)
  let ?c = "capacity r" and ?rd = "read_idx r"
  let ?new = "\<lambda>i. (frames r)[?rd := f] ! (((?rd + 1) mod ?c + i) mod ?c)"
  have shift: "((?rd + 1) mod ?c + i) mod ?c = (?rd + (i + 1)) mod ?c" for i
  proof -
    have "((?rd + 1) mod ?c + i) mod ?c = ((?rd + 1) + i) mod ?c"
      by (rule mod_add_left_eq)
    then show ?thesis by (simp add: add.commute add.left_commute)
  qed
  have old: "?new i = frames r ! ((?rd + (i + 1)) mod ?c)" if "i + 1 < ?c" for i
  proof -
    have "(?rd + (i + 1)) mod ?c \<noteq> ?rd"
      using that c mod_shift_inj [of "i + 1" ?c 0 ?rd] by auto
    then have "(frames r)[?rd := f] ! ((?rd + (i + 1)) mod ?c)
        = frames r ! ((?rd + (i + 1)) mod ?c)"
      by (intro nth_list_update_neq) (auto dest: not_sym)
    then show ?thesis by (simp only: shift)
  qed
  have lastf: "?new (?c - 1) = f"
  proof -
    have "(?rd + ((?c - 1) + 1)) mod ?c = ?rd" using c by simp
    then have "(frames r)[?rd := f] ! ((?rd + ((?c - 1) + 1)) mod ?c) = f"
      using c by simp
    then show ?thesis by (simp only: shift)
  qed
  have len: "length (held r) = ?c" using assms by (simp add: held_def)
  show ?thesis
  proof (rule nth_equalityI)
    show "length (held (r\<lparr>frames := (frames r)[write_idx r := f],
            write_idx := (write_idx r + 1) mod capacity r,
            read_idx := (read_idx r + 1) mod capacity r\<rparr>)) = length (tl (held r) @ [f])"
      using c len assms by (simp add: held_def)
  next
    fix i
    assume "i < length (held (r\<lparr>frames := (frames r)[write_idx r := f],
            write_idx := (write_idx r + 1) mod capacity r,
            read_idx := (read_idx r + 1) mod capacity r\<rparr>))"
    then have i: "i < ?c" using assms by (simp add: held_def)
    show "held (r\<lparr>frames := (frames r)[write_idx r := f],
            write_idx := (write_idx r + 1) mod capacity r,
            read_idx := (read_idx r + 1) mod capacity r\<rparr>) ! i = (tl (held r) @ [f]) ! i"
    proof (cases "i + 1 < ?c")
      case True
      then have "(tl (held r) @ [f]) ! i = held r ! (i + 1)"
        using len by (simp add: nth_append nth_tl)
      also have "\<dots> = frames r ! ((?rd + (i + 1)) mod ?c)"
        using True assms by (simp add: held_def)
      finally show ?thesis
        using old [OF True] i assms c by (simp add: held_def)
    next
      case False
      then have e: "i = ?c - 1" using i by simp
      then have "(tl (held r) @ [f]) ! i = f"
        using len by (simp add: nth_append)
      then show ?thesis
        using lastf e i assms c by (simp add: held_def)
    qed
  qed
qed

subsection \<open>The operations on the frames held\<close>

lemma held_length: "length (held r) = count r"
  by (simp add: held_def)

lemma push_ok:
  assumes "rb_inv r"
  shows "\<exists>r'. push f r = Inr (True, r') \<and> rb_inv r' \<and> capacity r' = capacity r \<and>
           held r' = newest (capacity r) (held r @ [f])"
proof (cases "count r < capacity r")
  case True
  let ?r' = "r\<lparr>frames := (frames r)[write_idx r := f],
            write_idx := (write_idx r + 1) mod capacity r, count := count r + 1\<rparr>"
  have p: "push f r = Inr (True, ?r')" using push_simp [OF assms, of f] True by simp
  have h: "held ?r' = held r @ [f]" using held_push_notfull [OF assms True] .
  have "(read_idx r + count r) mod capacity r = write_idx r" using assms by (simp add: rb_inv_def)
  then have "(write_idx r + 1) mod capacity r = (read_idx r + (count r + 1)) mod capacity r"
    by (metis add.assoc mod_add_left_eq)
  then have i: "rb_inv ?r'" using assms True by (simp add: rb_inv_def)
  have "newest (capacity r) (held r @ [f]) = held r @ [f]"
    using True by (simp add: newest_def held_length)
  with p h i show ?thesis by simp
next
  case False
  with assms have full: "count r = capacity r" by (simp add: rb_inv_def)
  let ?r' = "r\<lparr>frames := (frames r)[write_idx r := f],
            write_idx := (write_idx r + 1) mod capacity r,
            read_idx := (read_idx r + 1) mod capacity r\<rparr>"
  have p: "push f r = Inr (True, ?r')" using push_simp [OF assms, of f] False by simp
  have h: "held ?r' = tl (held r) @ [f]" using held_push_full [OF assms full] .
  have w: "write_idx r = read_idx r" using assms full by (simp add: rb_inv_def)
  have i: "rb_inv ?r'" using assms full w by (simp add: rb_inv_def)
  have "held r \<noteq> []" using assms full held_length [of r] by (auto simp: rb_inv_def)
  then have "newest (capacity r) (held r @ [f]) = tl (held r) @ [f]"
    using full held_length [of r] by (cases "held r") (simp_all add: newest_def)
  with p h i show ?thesis by simp
qed

lemma newest_newest: "newest c (newest c xs @ ys) = newest c (xs @ ys)"
proof (cases "length xs \<le> c")
  case True
  then show ?thesis by (simp add: newest_def)
next
  case False
  then have "length xs - c + c = length xs"
    "length xs + length ys - length xs + (length xs - c) = length xs + length ys - c"
    by simp_all
  then show ?thesis by (simp add: newest_def)
qed

lemma pushes_ok:
  assumes "rb_inv r"
  shows "\<exists>r'. pushes fs r = Inr r' \<and> rb_inv r' \<and> capacity r' = capacity r \<and>
           held r' = newest (capacity r) (held r @ fs)"
  using assms
proof (induction fs arbitrary: r)
  case Nil
  then show ?case by (simp add: newest_def held_length rb_inv_def)
next
  case (Cons f fs)
  from push_ok [OF Cons.prems, of f] obtain r1 where
    r1: "push f r = Inr (True, r1)" "rb_inv r1" "capacity r1 = capacity r"
      "held r1 = newest (capacity r) (held r @ [f])"
    by blast
  from Cons.IH [OF r1(2)] obtain r' where
    r': "pushes fs r1 = Inr r'" "rb_inv r'" "capacity r' = capacity r1"
      "held r' = newest (capacity r1) (held r1 @ fs)"
    by blast
  have "held r' = newest (capacity r) (held r @ f # fs)"
    using r'(4) r1(3,4) newest_newest [of "capacity r" "held r @ [f]" fs] by simp
  with r1 r' show ?case by simp
qed

lemma init_inv:
  assumes "0 < c" "c \<le> 2 ^ 63"
  shows "rb_inv (FrameRingBuffer_init c) \<and> held (FrameRingBuffer_init c) = [] \<and>
         capacity (FrameRingBuffer_init c) = c"
  using assms by (simp add: rb_inv_def FrameRingBuffer_init_def held_def)

lemma clear_inv: "rb_inv r \<Longrightarrow> rb_inv (clear r) \<and> capacity (clear r) = capacity r \<and> held (clear r) = []"
  by (simp add: rb_inv_def clear_def held_def)

lemma pop_empty: "count r = 0 \<Longrightarrow> pop r = Inr (None, r)"
  by (simp add: pop_def)

lemma pop_ok:
  assumes "rb_inv r" "0 < count r"
  shows "\<exists>r'. pop r = Inr (Some (hd (held r)), r') \<and> rb_inv r' \<and>
           capacity r' = capacity r \<and> held r' = tl (held r)"
proof -
  from assms have c: "0 < capacity r" "capacity r \<le> 2 ^ 63" "length (frames r) = capacity r"
    "read_idx r < capacity r" "count r \<le> capacity r"
    "write_idx r = (read_idx r + count r) mod capacity r"
    by (auto simp: rb_inv_def)
  let ?c = "capacity r" and ?rd = "read_idx r"
  let ?r' = "r\<lparr>read_idx := (?rd + 1) mod ?c, count := count r - 1\<rparr>"
  have rd: "size_t (int ?rd + 1) = ?rd + 1"
    using c by (simp add: size_t_def nat_add_distrib)
  have ct: "size_t (int (count r) - 1) = count r - 1"
    using c assms(2) by (simp add: size_t_def nat_diff_distrib')
  have hd: "hd (held r) = frames r ! ?rd"
    using assms(2) c by (simp add: held_def hd_map upt_conv_Cons)
  have p: "pop r = Inr (Some (hd (held r)), ?r')"
    using c assms(2) by (simp add: pop_def rd ct hd)
  have shift: "((?rd + 1) mod ?c + i) mod ?c = (?rd + (i + 1)) mod ?c" for i
  proof -
    have "((?rd + 1) mod ?c + i) mod ?c = ((?rd + 1) + i) mod ?c"
      by (rule mod_add_left_eq)
    then show ?thesis by (simp add: add.commute add.left_commute)
  qed
  have "write_idx r = ((?rd + 1) mod ?c + (count r - 1)) mod ?c"
    using c(6) assms(2) by (simp only: shift) simp
  then have i: "rb_inv ?r'" using c by (simp add: rb_inv_def)
  have h: "held ?r' = tl (held r)"
  proof (rule nth_equalityI)
    show "length (held ?r') = length (tl (held r))" by (simp add: held_def)
  next
    fix i
    assume "i < length (held ?r')"
    then have i: "i < count r - 1" by (simp add: held_def)
    then have "held ?r' ! i = frames r ! (((?rd + 1) mod ?c + i) mod ?c)"
      by (simp add: held_def)
    also have "\<dots> = frames r ! ((?rd + (i + 1)) mod ?c)" by (simp only: shift)
    also have "\<dots> = held r ! (i + 1)" using i by (simp add: held_def)
    also have "\<dots> = tl (held r) ! i" using i by (simp add: nth_tl held_def)
    finally show "held ?r' ! i = tl (held r) ! i" .
  qed
  from p i h show ?thesis by simp
qed

lemma peek_empty: "count r = 0 \<Longrightarrow> peekLatest r = Inr None"
  by (simp add: peekLatest_def)

lemma peek_ok:
  assumes "rb_inv r" "0 < count r"
  shows "peekLatest r = Inr (Some (last (held r)))"
proof -
  from assms have c: "0 < capacity r" "capacity r \<le> 2 ^ 63" "length (frames r) = capacity r"
    "read_idx r < capacity r" "count r \<le> capacity r"
    "write_idx r = (read_idx r + count r) mod capacity r"
    by (auto simp: rb_inv_def)
  let ?c = "capacity r" and ?rd = "read_idx r" and ?w = "write_idx r"
  have w: "?w < ?c" using c by simp
  have "int ?w + int ?c < 2 ^ 64" using w c(2) by simp
  then have s1: "size_t (int ?w + int ?c) = ?w + ?c"
    by (simp add: size_t_def nat_add_distrib)
  have "int (?w + ?c) - 1 < 2 ^ 64" "0 \<le> int (?w + ?c) - 1" using w c(1,2) by simp_all
  then have "size_t (int (?w + ?c) - 1) = ?w + ?c - 1"
    using c(1) by (simp add: size_t_def nat_diff_distrib')
  then have s2: "size_t (int (size_t (int ?w + int ?c)) - 1) = ?w + ?c - 1"
    by (simp only: s1)
  have "(?w + ?c - 1) mod ?c = ((?rd + count r) mod ?c + (?c - 1)) mod ?c"
    using c(1,6) by (simp add: add.commute)
  also have "\<dots> = (?rd + count r + (?c - 1)) mod ?c" by (rule mod_add_left_eq)
  also have "\<dots> = ((?rd + (count r - 1)) + ?c) mod ?c"
    using assms(2) c(1) by (simp add: algebra_simps)
  also have "\<dots> = (?rd + (count r - 1)) mod ?c" by simp
  finally have latest: "(?w + ?c - 1) mod ?c = (?rd + (count r - 1)) mod ?c" .
  have "held r \<noteq> []" using assms(2) by (simp add: held_def)
  then have "last (held r) = held r ! (count r - 1)"
    by (simp add: last_conv_nth held_length)
  also have "\<dots> = frames r ! ((?rd + (count r - 1)) mod ?c)"
    using assms(2) by (simp add: held_def)
  finally have l: "last (held r) = frames r ! ((?rd + (count r - 1)) mod ?c)" .
  have lt: "(?rd + (count r - 1)) mod ?c < length (frames r)" using c by simp
  have "peekLatest r =
      (if length (frames r) \<le> (?rd + (count r - 1)) mod ?c then Inl IndexOutOfRange
       else Inr (Some (frames r ! ((?rd + (count r - 1)) mod ?c))))"
    using assms(2) c(1) unfolding peekLatest_def Let_def s2 latest by simp
  with lt l show ?thesis by simp
qed

lemma pops_ok:
  assumes "rb_inv r"
  shows "\<exists>r'. pops n r = Inr (take n (held r), r') \<and> rb_inv r' \<and>
           capacity r' = capacity r \<and> held r' = drop n (held r)"
  using assms
proof (induction n arbitrary: r)
  case 0
  then show ?case by simp
next
  case (Suc n)
  show ?case
  proof (cases "count r = 0")
    case True
    then have "held r = []" by (simp add: held_def)
    with True Suc.prems show ?thesis by (simp add: pop_empty)
  next
    case False
    then have pos: "0 < count r" by simp
    from pop_ok [OF Suc.prems pos] obtain r1 where
      r1: "pop r = Inr (Some (hd (held r)), r1)" "rb_inv r1" "capacity r1 = capacity r"
        "held r1 = tl (held r)"
      by blast
    from Suc.IH [OF r1(2)] obtain r' where
      r': "pops n r1 = Inr (take n (held r1), r')" "rb_inv r'" "capacity r' = capacity r1"
        "held r' = drop n (held r1)"
      by blast
    have ne: "held r \<noteq> []" using pos by (simp add: held_def)
    then have "take (Suc n) (held r) = hd (held r) # take n (tl (held r))"
      by (cases "held r") simp_all
    moreover have "drop (Suc n) (held r) = drop n (tl (held r))"
      using ne by (cases "held r") simp_all
    ultimately show ?thesis using r1 r' by simp
  qed
qed

lemma rb_step_inv:
  assumes "rb_inv r"
  shows "\<exists>r'. rb_step a r = Inr r' \<and> rb_inv r' \<and> capacity r' = capacity r"
proof (cases a)
  case (Push f)
  then show ?thesis using push_ok [OF assms, of f] by auto
next
  case Pop
  show ?thesis
  proof (cases "count r = 0")
    case True
    then show ?thesis using Pop assms by (simp add: pop_empty)
  next
    case False
    then show ?thesis using Pop pop_ok [OF assms] by auto
  qed
next
  case PeekLatest
  show ?thesis
  proof (cases "count r = 0")
    case True
    then show ?thesis using PeekLatest assms by (simp add: peek_empty)
  next
    case False
    then show ?thesis using PeekLatest peek_ok [OF assms] assms by auto
  qed
next
  case Clear
  then show ?thesis using clear_inv [OF assms] by simp
qed

lemma rb_run_inv:
  assumes "rb_inv r"
  shows "\<exists>r'. rb_run ops r = Inr r' \<and> rb_inv r' \<and> capacity r' = capacity r"
  using assms
proof (induction ops arbitrary: r)
  case Nil
  then show ?case by simp
next
  case (Cons a ops)
  from rb_step_inv [OF Cons.prems, of a] obtain r1 where
    r1: "rb_step a r = Inr r1" "rb_inv r1" "capacity r1 = capacity r" by blast
  from Cons.IH [OF r1(2)] r1 show ?case by auto
qed

text \<open>
  Claim C4. A buffer has a capacity \<open>C\<close> of at least 1 (with capacity 0 the vector is empty
  and \<^verbatim>\<open>push\<close> indexes it out of range) and of at most \<open>2 ^ 63\<close> (no vector of more frames
  can be allocated; up to there no \<^verbatim>\<open>size_t\<close> sum wraps). For every such buffer, every
  interleaving of \<^verbatim>\<open>push\<close>, \<^verbatim>\<open>pop\<close>, \<^verbatim>\<open>peekLatest\<close> and \<^verbatim>\<open>clear\<close> on the fresh buffer
  returns and leaves \<^verbatim>\<open>size() \<le> C\<close>. After pushing any frames \<open>fr 1, ..., fr N\<close> with
  \<open>N > C\<close>, the size is \<open>C\<close>, \<^verbatim>\<open>peekLatest\<close> returns \<open>fr N\<close>, the first \<open>j \<le> C\<close> calls of
  \<^verbatim>\<open>pop\<close> return \<open>fr (N - C + 1), ..., fr (N - C + j)\<close> in this order and leave size
  \<open>C - j\<close>; \<open>C\<close> calls return \<open>fr (N - C + 1), ..., fr N\<close>, and the next \<^verbatim>\<open>pop\<close> finds the
  buffer empty.
\<close>

theorem ring_buffer_keeps_newest:
  assumes "0 < C" "C \<le> 2 ^ 63"
  shows "(\<exists>r. rb_run ops (FrameRingBuffer_init C) = Inr r \<and> size_rb r \<le> C) \<and>
         (C < N \<longrightarrow>
            (\<exists>r. pushes (map fr [1..<Suc N]) (FrameRingBuffer_init C) = Inr r \<and>
                 size_rb r = C \<and>
                 peekLatest r = Inr (Some (fr N)) \<and>
                 (\<forall>j\<le>C. \<exists>r'. pops j r = Inr (map fr [Suc (N - C)..<Suc (N - C) + j], r') \<and>
                              size_rb r' = C - j) \<and>
                 (\<exists>r'. pops C r = Inr (map fr [Suc (N - C)..<Suc N], r') \<and>
                       pop r' = Inr (None, r'))))"
proof -
  note init = init_inv [OF assms]
  from rb_run_inv [of "FrameRingBuffer_init C" ops] init obtain r0 where
    r0: "rb_run ops (FrameRingBuffer_init C) = Inr r0" "rb_inv r0" "capacity r0 = C"
    by auto
  then have first: "\<exists>r. rb_run ops (FrameRingBuffer_init C) = Inr r \<and> size_rb r \<le> C"
    by (auto simp: rb_inv_def size_rb_def)
  have second: "\<exists>r. pushes (map fr [1..<Suc N]) (FrameRingBuffer_init C) = Inr r \<and>
                 size_rb r = C \<and>
                 peekLatest r = Inr (Some (fr N)) \<and>
                 (\<forall>j\<le>C. \<exists>r'. pops j r = Inr (map fr [Suc (N - C)..<Suc (N - C) + j], r') \<and>
                              size_rb r' = C - j) \<and>
                 (\<exists>r'. pops C r = Inr (map fr [Suc (N - C)..<Suc N], r') \<and>
                       pop r' = Inr (None, r'))" if lt: "C < N"
  proof -
    from pushes_ok [of "FrameRingBuffer_init C" "map fr [1..<Suc N]"] init obtain r where
      r: "pushes (map fr [1..<Suc N]) (FrameRingBuffer_init C) = Inr r" "rb_inv r"
        "capacity r = C" "held r = newest C (map fr [1..<Suc N])"
      by auto
    have h: "held r = map fr [Suc (N - C)..<Suc N]"
      using r(4) lt by (simp add: newest_def drop_map del: upt_Suc)
    have "length (held r) = C" using lt unfolding h by (simp del: upt_Suc)
    then have sz: "size_rb r = C"
      by (simp add: size_rb_def held_length)
    then have pos: "0 < count r" using assms(1) by (simp add: size_rb_def)
    have "last (held r) = fr N" using lt assms(1) unfolding h by (simp add: last_map)
    then have pk: "peekLatest r = Inr (Some (fr N))" using peek_ok [OF r(2) pos] by simp
    have pp: "\<exists>r'. pops j r = Inr (map fr [Suc (N - C)..<Suc (N - C) + j], r') \<and>
                size_rb r' = C - j \<and> (j = C \<longrightarrow> pop r' = Inr (None, r'))" if j: "j \<le> C" for j
    proof -
      from pops_ok [OF r(2), of j] obtain r' where
        r': "pops j r = Inr (take j (held r), r')" "held r' = drop j (held r)" by blast
      have t: "take j (held r) = map fr [Suc (N - C)..<Suc (N - C) + j]"
        using j lt unfolding h by (simp add: take_map del: upt_Suc)
      have "length (held r') = C - j" using lt unfolding r'(2) h by (simp del: upt_Suc)
      then have c: "count r' = C - j" by (simp add: held_length)
      then have "pop r' = Inr (None, r')" if "j = C" using that by (simp add: pop_empty)
      with r'(1) t c show ?thesis by (auto simp: size_rb_def)
    qed
    have all: "\<exists>r'. pops C r = Inr (map fr [Suc (N - C)..<Suc N], r') \<and> pop r' = Inr (None, r')"
      using pp [of C] lt by auto
    from r(1) sz pk pp all show ?thesis by blast
  qed
  from first second show ?thesis by blast
qed


text \<open>Capacity 3 and the frames numbered 1 to 5: the size is 3, the latest frame is
  number 5, and three pops give the numbers 3, 4 and 5.\<close>

theorem ring_buffer_keeps_newest_witness:
  "(0::nat) < 3 \<and> (3::nat) \<le> 2 ^ 63 \<and> (3::nat) < 5 \<and>
   (\<exists>r. pushes (map numbered [1..<6]) (FrameRingBuffer_init 3) = Inr r \<and>
        size_rb r = 3 \<and>
        peekLatest r = Inr (Some (numbered 5)) \<and>
        (\<exists>r'. pops 3 r = Inr ([numbered 3, numbered 4, numbered 5], r') \<and>
              pop r' = Inr (None, r')))"
proof -
  have h: "(0::nat) < 3" "(3::nat) \<le> 2 ^ 63" "(3::nat) < 5" by simp_all
  have u: "[Suc (5 - 3)..<Suc 5] = [3, 4, 5]" "[1..<Suc 5] = [1..<6]"
    by (simp_all add: upt_rec)
  from ring_buffer_keeps_newest [OF h(1,2), of "[]" 5 numbered] h(3) u show ?thesis
    by auto
qed


section \<open>Properties of the texture pool\<close>

lemma newTexture_dims:
  "newTextureWithDescriptor alloc dev wd ht = (Some t, dev') \<Longrightarrow>
     tex_width t = wd \<and> tex_height t = ht"
  by (auto simp: newTextureWithDescriptor_def split: prod.splits option.splits)

lemma newTexture_cases:
  "newTextureWithDescriptor alloc dev wd ht =
     (map_option (\<lambda>handle. \<lparr>tex_handle = handle, tex_width = wd, tex_height = ht\<rparr>)
        (fst (alloc dev)), snd (alloc dev))"
  by (auto simp: newTextureWithDescriptor_def split: prod.splits option.splits)

lemma preallocate_dims:
  assumes "preallocate alloc wd ht n acc dev = (texs, dev')"
    and "\<forall>t\<in>set acc. tex_width t = wd \<and> tex_height t = ht"
  shows "\<forall>t\<in>set texs. tex_width t = wd \<and> tex_height t = ht"
  using assms
proof (induction n arbitrary: acc dev)
  case 0
  then show ?case by simp
next
  case (Suc n)
  show ?case
  proof (cases "newTextureWithDescriptor alloc dev wd ht")
    case (Pair tex d1)
    show ?thesis
    proof (cases tex)
      case None
      with Pair Suc.prems(1) have "preallocate alloc wd ht n acc d1 = (texs, dev')" by simp
      from Suc.IH [OF this Suc.prems(2)] show ?thesis .
    next
      case (Some t)
      with Pair Suc.prems(1) have p: "preallocate alloc wd ht n (acc @ [t]) d1 = (texs, dev')"
        by simp
      from Pair Some have "tex_width t = wd \<and> tex_height t = ht"
        using newTexture_dims by fastforce
      with Suc.prems(2) have "\<forall>t\<in>set (acc @ [t]). tex_width t = wd \<and> tex_height t = ht"
        by auto
      from Suc.IH [OF p this] show ?thesis .
    qed
  qed
qed

lemma init_pool_inv:
  "pool_inv (fst (TexturePool_init alloc dev wd ht n)) \<and>
   pool_width (fst (TexturePool_init alloc dev wd ht n)) = wd \<and>
   pool_height (fst (TexturePool_init alloc dev wd ht n)) = ht"
proof -
  obtain texs dev' where p: "preallocate alloc (unat wd) (unat ht) n [] dev = (texs, dev')"
    by (cases "preallocate alloc (unat wd) (unat ht) n [] dev")
  from preallocate_dims [OF p] have "\<forall>t\<in>set texs. tex_width t = unat wd \<and> tex_height t = unat ht"
    by simp
  with p show ?thesis
    by (simp add: TexturePool_init_def pool_inv_def matches_def)
qed

lemma acquire_inv:
  assumes "pool_inv p" "acquire alloc p dev = (tex, p', dev')"
  shows "pool_inv p' \<and> pool_width p' = pool_width p \<and> pool_height p' = pool_height p"
proof (cases "available p = []")
  case True
  with assms show ?thesis
    by (auto simp: acquire_def pool_inv_def split: prod.splits)
next
  case False
  with assms(2) have p': "p' = p\<lparr>available := butlast (available p)\<rparr>"
    by (simp add: acquire_def)
  have "set (butlast (available p)) \<subseteq> set (available p)"
    by (auto dest: in_set_butlastD)
  with assms(1) show ?thesis
    unfolding p' by (auto simp: pool_inv_def matches_def)
qed

lemma release_inv: "pool_inv p \<Longrightarrow> pool_inv (release tex p)"
  by (auto simp: release_def pool_inv_def matches_def split: option.splits)

lemma resize_inv: "pool_inv p \<Longrightarrow> pool_inv (resize wd ht p)"
  by (auto simp: resize_def pool_inv_def matches_def)

lemma pool_step_inv: "pool_inv (fst st) \<Longrightarrow> pool_inv (fst (pool_step alloc a st))"
proof (cases st)
  case (Pair p dev)
  assume "pool_inv (fst st)"
  with Pair have i: "pool_inv p" by simp
  show ?thesis
  proof (cases a)
    case Acquire
    obtain tex p' dev' where a: "acquire alloc p dev = (tex, p', dev')"
      by (cases "acquire alloc p dev") auto
    from acquire_inv [OF i a] a Pair Acquire show ?thesis by simp
  next
    case (Release tex)
    with Pair i show ?thesis by (simp add: release_inv)
  next
    case (Resize wd ht)
    with Pair i show ?thesis by (simp add: resize_inv)
  qed
qed

lemma pool_run_inv: "pool_inv (fst st) \<Longrightarrow> pool_inv (fst (pool_run alloc ops st))"
  unfolding pool_run_def
  by (induction ops arbitrary: st) (simp_all add: pool_step_inv)

lemma acquire_matches:
  assumes "pool_inv p" "acquire alloc p dev = (Some t, p', dev')"
  shows "matches p t"
proof (cases "available p = []")
  case True
  with assms(2) have "newTextureWithDescriptor alloc dev (unat (pool_width p)) (unat (pool_height p))
      = (Some t, dev')"
    by (auto simp: acquire_def split: prod.splits)
  from newTexture_dims [OF this] show ?thesis by (simp add: matches_def)
next
  case False
  with assms(2) have "t = last (available p)" by (simp add: acquire_def)
  with False assms(1) show ?thesis by (simp add: pool_inv_def)
qed

lemma release_acquire:
  assumes "matches p t"
  shows "acquire alloc (release (Some t) p) dev = (Some t, p, dev)"
  using assms by (simp add: release_def matches_def acquire_def)

text \<open>
  Claim C9. Take the pool that the constructor builds on any device, for any dimensions
  and pool size, after any sequence of \<^verbatim>\<open>acquire\<close>, \<^verbatim>\<open>release\<close> (of any texture, also one
  of other dimensions, or \<^verbatim>\<open>nil\<close>) and \<^verbatim>\<open>resize\<close> calls. Every texture that \<^verbatim>\<open>acquire\<close>
  returns there has the configured width and height, and releasing it and acquiring again
  returns the same texture, with the pool and the device as they were after the first
  acquire: nothing is allocated. For every pool, \<^verbatim>\<open>acquire\<close> takes the last texture of a
  non-empty free set and leaves the device alone; with an empty free set it returns what
  the device answers to a descriptor of the configured dimensions, which is a texture of
  these dimensions or \<^verbatim>\<open>nil\<close> if the device cannot allocate. \<^verbatim>\<open>release\<close> appends a
  texture to the free set if its dimensions equal the configuration and otherwise leaves
  the pool as it is; a matching texture released is the next one acquired.
\<close>

theorem pool_acquire_release:
  "(\<forall>t p' dev'. acquire alloc (fst (pool_run alloc ops (TexturePool_init alloc dev0 wd ht n)))
                   (snd (pool_run alloc ops (TexturePool_init alloc dev0 wd ht n)))
                 = (Some t, p', dev') \<longrightarrow>
       matches (fst (pool_run alloc ops (TexturePool_init alloc dev0 wd ht n))) t \<and>
       acquire alloc (release (Some t) p') dev' = (Some t, p', dev')) \<and>
   acquire alloc p dev =
     (if available p \<noteq> []
      then (Some (last (available p)), p\<lparr>available := butlast (available p)\<rparr>, dev)
      else (map_option (\<lambda>handle. \<lparr>tex_handle = handle, tex_width = unat (pool_width p),
                                    tex_height = unat (pool_height p)\<rparr>) (fst (alloc dev)),
            p, snd (alloc dev))) \<and>
   release (Some t) p = (if matches p t then p\<lparr>available := available p @ [t]\<rparr> else p) \<and>
   release None p = p \<and>
   (matches p t \<longrightarrow> acquire alloc (release (Some t) p) dev = (Some t, p, dev))"
proof -
  let ?st = "pool_run alloc ops (TexturePool_init alloc dev0 wd ht n)"
  have inv: "pool_inv (fst ?st)"
    by (rule pool_run_inv) (simp add: init_pool_inv)
  have a: "matches (fst ?st) t \<and> acquire alloc (release (Some t) p') dev' = (Some t, p', dev')"
    if acq: "acquire alloc (fst ?st) (snd ?st) = (Some t, p', dev')" for t p' dev'
  proof -
    from acquire_matches [OF inv acq] have m: "matches (fst ?st) t" .
    from acquire_inv [OF inv acq] m have "matches p' t" by (simp add: matches_def)
    from release_acquire [OF this] m show ?thesis by simp
  qed
  have b: "acquire alloc p dev =
     (if available p \<noteq> []
      then (Some (last (available p)), p\<lparr>available := butlast (available p)\<rparr>, dev)
      else (map_option (\<lambda>handle. \<lparr>tex_handle = handle, tex_width = unat (pool_width p),
                                    tex_height = unat (pool_height p)\<rparr>) (fst (alloc dev)),
            p, snd (alloc dev)))"
    by (simp add: acquire_def newTexture_cases)
  have c: "release (Some t) p = (if matches p t then p\<lparr>available := available p @ [t]\<rparr> else p)"
    "release None p = p"
    by (simp_all add: release_def matches_def)
  from a have A: "\<forall>t p' dev'. acquire alloc (fst ?st) (snd ?st) = (Some t, p', dev') \<longrightarrow>
       matches (fst ?st) t \<and> acquire alloc (release (Some t) p') dev' = (Some t, p', dev')"
    by blast
  have d: "matches p t \<longrightarrow> acquire alloc (release (Some t) p) dev = (Some t, p, dev)"
    by (simp add: release_acquire)
  show ?thesis
    by (intro conjI) (rule A b c d)+
qed

text \<open>A 1920 by 1080 pool with one texture, on a device that can allocate twice (once
  for the constructor). The first acquire empties the free set, the second one allocates
  the texture with handle 1; released and acquired again it comes back without an
  allocation. With the free set empty and the device exhausted, acquire returns
  \<^verbatim>\<open>nil\<close>.\<close>

theorem pool_acquire_release_witness:
  "pool_run budget_alloc [Acquire] (TexturePool_init budget_alloc (0, 2) 1920 1080 1)
     = (hd_pool [], (1, 1)) \<and>
   acquire budget_alloc (hd_pool []) (1, 1) = (Some (hd_texture 1), hd_pool [], (2, 0)) \<and>
   matches (hd_pool []) (hd_texture 1) \<and>
   acquire budget_alloc (release (Some (hd_texture 1)) (hd_pool [])) (2, 0)
     = (Some (hd_texture 1), hd_pool [], (2, 0)) \<and>
   acquire budget_alloc (hd_pool []) (2, 0) = (None, hd_pool [], (2, 0))"
proof -
  let ?st = "pool_run budget_alloc [Acquire] (TexturePool_init budget_alloc (0, 2) 1920 1080 1)"
  have st: "?st = (hd_pool [], (1, 1))"
    by (simp add: pool_run_def TexturePool_init_def acquire_def newTextureWithDescriptor_def
          budget_alloc_def hd_pool_def)
  have h: "acquire budget_alloc (fst ?st) (snd ?st) = (Some (hd_texture 1), hd_pool [], (2, 0))"
    unfolding st
    by (simp add: acquire_def newTextureWithDescriptor_def budget_alloc_def hd_pool_def
          hd_texture_def)
  note inst = pool_acquire_release [of budget_alloc "[Acquire]" "(0, 2)" 1920 1080 1 "hd_pool []" "(2, 0)"
      "hd_texture 1"]
  from inst h have m: "matches (fst ?st) (hd_texture 1)"
    and r: "acquire budget_alloc (release (Some (hd_texture 1)) (hd_pool [])) (2, 0)
              = (Some (hd_texture 1), hd_pool [], (2, 0))"
    by blast+
  from inst have "acquire budget_alloc (hd_pool []) (2, 0) = (None, hd_pool [], (2, 0))"
    by (simp add: budget_alloc_def hd_pool_def)
  with st h m r show ?thesis by simp
qed

section \<open>Properties of the NDI sink\<close>

lemma ndi_step_facts:
  assumes "running s" "length (pixel_queue s) \<le> unat (async_queue_size s)"
  shows "running (ndi_step render ev s) \<and>
         async_queue_size (ndi_step render ev s) = async_queue_size s \<and>
         length (pixel_queue (ndi_step render ev s)) \<le> unat (async_queue_size s) \<and>
         frames_sent (ndi_step render ev s) + frames_dropped (ndi_step render ev s) +
           length (pixel_queue (ndi_step render ev s))
         = frames_sent s + frames_dropped s + length (pixel_queue s) +
           length (offered render [ev])"
  using assms
  by (cases ev)
     (auto simp: pushFrame_def pushPixelData_def sendOne_def split: list.splits)

lemma ndi_run_facts:
  assumes "running s" "length (pixel_queue s) \<le> unat (async_queue_size s)"
  shows "running (ndi_run render evs s) \<and>
         async_queue_size (ndi_run render evs s) = async_queue_size s \<and>
         length (pixel_queue (ndi_run render evs s)) \<le> unat (async_queue_size s) \<and>
         frames_sent (ndi_run render evs s) + frames_dropped (ndi_run render evs s) +
           length (pixel_queue (ndi_run render evs s))
         = frames_sent s + frames_dropped s + length (pixel_queue s) +
           length (offered render evs)"
  using assms
proof (induction evs arbitrary: s)
  case Nil
  then show ?case by (simp add: ndi_run_def)
next
  case (Cons ev evs)
  note st = ndi_step_facts [OF Cons.prems, of render ev]
  from st have a: "running (ndi_step render ev s)"
    "length (pixel_queue (ndi_step render ev s)) \<le> unat (async_queue_size (ndi_step render ev s))"
    by simp_all
  have o: "length (offered render (ev # evs)) = length (offered render [ev]) + length (offered render evs)"
    by (cases ev) simp_all
  have r: "ndi_run render (ev # evs) s = ndi_run render evs (ndi_step render ev s)"
    by (simp add: ndi_run_def)
  from Cons.IH [OF a] st o show ?case unfolding r by simp
qed

lemma offered_append: "offered render (evs @ evs') = offered render evs @ offered render evs'"
  by (induction render evs rule: offered.induct) simp_all

lemma stalled_step:
  assumes "running s" "ev \<noteq> SendOne"
  shows "frames_sent (ndi_step render ev s) = frames_sent s \<and>
         pixel_queue (ndi_step render ev s)
           = take (max (unat (async_queue_size s)) (length (pixel_queue s)))
               (pixel_queue s @ offered render [ev])"
  using assms
  by (cases ev) (auto simp: pushFrame_def pushPixelData_def max_def)

lemma stalled_run:
  assumes "running s" "length (pixel_queue s) \<le> unat (async_queue_size s)" "stalled evs"
  shows "frames_sent (ndi_run render evs s) = frames_sent s \<and>
         pixel_queue (ndi_run render evs s)
           = take (unat (async_queue_size s)) (pixel_queue s @ offered render evs)"
  using assms
proof (induction evs arbitrary: s)
  case Nil
  then show ?case by (simp add: ndi_run_def)
next
  case (Cons ev evs)
  from Cons.prems(3) have ne: "ev \<noteq> SendOne" and st': "stalled evs"
    by (auto simp: stalled_def)
  note f = ndi_step_facts [OF Cons.prems(1,2), of render ev]
  note g = stalled_step [OF Cons.prems(1) ne, of render]
  from f have a: "running (ndi_step render ev s)"
    "length (pixel_queue (ndi_step render ev s)) \<le> unat (async_queue_size (ndi_step render ev s))"
    by simp_all
  have r: "ndi_run render (ev # evs) s = ndi_run render evs (ndi_step render ev s)"
    by (simp add: ndi_run_def)
  have o: "offered render (ev # evs) = offered render [ev] @ offered render evs"
    using offered_append [of render "[ev]" evs] by simp
  let ?q = "unat (async_queue_size s)"
  have q: "pixel_queue (ndi_step render ev s) = take ?q (pixel_queue s @ offered render [ev])"
    using g Cons.prems(2) by (simp add: max_def)
  have "take ?q (take ?q (pixel_queue s @ offered render [ev]) @ offered render evs)
      = take ?q (pixel_queue s @ offered render [ev] @ offered render evs)"
    by (simp add: take_append min_def) 
  with Cons.IH [OF a st'] f g q o show ?case unfolding r by simp
qed

lemma started_facts:
  "running (ndi_started q)" "pixel_queue (ndi_started q) = []"
  "async_queue_size (ndi_started q) = q" "frames_sent (ndi_started q) = 0"
  "frames_dropped (ndi_started q) = 0"
  by (simp_all add: ndi_started_def)

lemma px_valid_example: "px_valid (example_px k)"
  by (simp add: example_px_def)

lemma ndi_run_Cons: "ndi_run render (ev # evs) s = ndi_run render evs (ndi_step render ev s)"
  by (simp add: ndi_run_def)

lemma ndi_run_Nil: "ndi_run render [] s = s"
  by (simp add: ndi_run_def)

text \<open>
  Claim C5, as amended. For the NDI sink started with queue depth \<open>q\<close> and any run of
  pushes of valid frames (\<^verbatim>\<open>pushFrame\<close>, \<^verbatim>\<open>pushPixelData\<close>) and rounds of the send task:
  the queue never holds more than \<open>q\<close> frames; a push that finds the queue full returns
  false, leaves the queue as it is and adds one to the dropped counter; and at all times
  \<^verbatim>\<open>framesSent() + framesDropped()\<close> plus the number of frames waiting in the queue equals
  the number of frames offered, so that the two counters add up to the frames offered
  whenever the queue is empty. With a stalled sender nothing is sent, the queue holds the
  first \<open>q\<close> frames offered, and every later frame is counted as dropped.
\<close>

theorem ndi_backpressure_accounting:
  "length (pixel_queue (ndi_run render evs (ndi_started q))) \<le> unat q \<and>
   framesSent (ndi_run render evs (ndi_started q)) +
     framesDropped (ndi_run render evs (ndi_started q)) +
     length (pixel_queue (ndi_run render evs (ndi_started q)))
   = length (offered render evs) \<and>
   (pixel_queue (ndi_run render evs (ndi_started q)) = [] \<longrightarrow>
      framesSent (ndi_run render evs (ndi_started q)) +
        framesDropped (ndi_run render evs (ndi_started q))
      = length (offered render evs)) \<and>
   (px_valid px \<and> unat q \<le> length (pixel_queue (ndi_run render evs (ndi_started q))) \<longrightarrow>
      pushPixelData px (ndi_run render evs (ndi_started q)) =
        (False, (ndi_run render evs (ndi_started q))
                  \<lparr>frames_dropped :=
                     frames_dropped (ndi_run render evs (ndi_started q)) + 1\<rparr>)) \<and>
   (valid frame \<and> unat q \<le> length (pixel_queue (ndi_run render evs (ndi_started q))) \<longrightarrow>
      pushFrame render frame (ndi_run render evs (ndi_started q)) =
        (False, (ndi_run render evs (ndi_started q))
                  \<lparr>frames_dropped :=
                     frames_dropped (ndi_run render evs (ndi_started q)) + 1\<rparr>)) \<and>
   (stalled evs \<longrightarrow>
      framesSent (ndi_run render evs (ndi_started q)) = 0 \<and>
      pixel_queue (ndi_run render evs (ndi_started q)) = take (unat q) (offered render evs) \<and>
      framesDropped (ndi_run render evs (ndi_started q)) = length (offered render evs) - unat q)"
proof -
  let ?s = "ndi_run render evs (ndi_started q)"
  have pre: "running (ndi_started q)"
    "length (pixel_queue (ndi_started q)) \<le> unat (async_queue_size (ndi_started q))"
    by (simp_all add: started_facts)
  note f = ndi_run_facts [OF pre, of render evs]
  from f have run: "running ?s" and qs: "async_queue_size ?s = q"
    and bound: "length (pixel_queue ?s) \<le> unat q"
    and sum: "framesSent ?s + framesDropped ?s + length (pixel_queue ?s)
                = length (offered render evs)"
    by (simp_all add: started_facts framesSent_def framesDropped_def)
  have drained: "framesSent ?s + framesDropped ?s = length (offered render evs)"
    if "pixel_queue ?s = []"
    using sum that by simp
  have full: "pushPixelData px ?s = (False, ?s\<lparr>frames_dropped := frames_dropped ?s + 1\<rparr>)"
    if "px_valid px \<and> unat q \<le> length (pixel_queue ?s)" for px
    using that run qs by (simp add: pushPixelData_def)
  have full2: "pushFrame render frame ?s = (False, ?s\<lparr>frames_dropped := frames_dropped ?s + 1\<rparr>)"
    if "valid frame \<and> unat q \<le> length (pixel_queue ?s)"
    using that run qs by (simp add: pushFrame_def pushPixelData_def)
  have st: "framesSent ?s = 0 \<and> pixel_queue ?s = take (unat q) (offered render evs) \<and>
            framesDropped ?s = length (offered render evs) - unat q" if s: "stalled evs"
  proof -
    from stalled_run [OF pre s, of render]
    have a: "frames_sent ?s = 0" "pixel_queue ?s = take (unat q) (offered render evs)"
      by (simp_all add: started_facts)
    from sum a have "frames_dropped ?s + min (length (offered render evs)) (unat q)
        = length (offered render evs)"
      by (simp add: framesSent_def framesDropped_def)
    then have "frames_dropped ?s = length (offered render evs) - unat q" by arith
    with a show ?thesis by (simp add: framesSent_def framesDropped_def)
  qed
  from bound sum drained full full2 st show ?thesis by blast
qed

text \<open>Depth 5 and eight frames with the sender stalled: three are dropped and the first
  five wait in the queue. After five rounds of the send task the queue is empty and the
  counters add up to eight.\<close>

theorem ndi_backpressure_accounting_witness:
  "stalled eight_pushes \<and>
   framesSent (ndi_run example_render eight_pushes (ndi_started 5)) = 0 \<and>
   framesDropped (ndi_run example_render eight_pushes (ndi_started 5)) = 3 \<and>
   pixel_queue (ndi_run example_render eight_pushes (ndi_started 5))
     = map example_px [1, 2, 3, 4, 5] \<and>
   pixel_queue (ndi_run example_render
     (eight_pushes @ [SendOne, SendOne, SendOne, SendOne, SendOne]) (ndi_started 5)) = [] \<and>
   framesSent (ndi_run example_render
     (eight_pushes @ [SendOne, SendOne, SendOne, SendOne, SendOne]) (ndi_started 5)) +
     framesDropped (ndi_run example_render
       (eight_pushes @ [SendOne, SendOne, SendOne, SendOne, SendOne]) (ndi_started 5))
   = 8"
proof -
  let ?drain = "eight_pushes @ [SendOne, SendOne, SendOne, SendOne, SendOne]"
  have s: "stalled eight_pushes" by (simp add: stalled_def eight_pushes_def)
  have o: "offered example_render eight_pushes = map example_px [1, 2, 3, 4, 5, 6, 7, 8]"
    by (simp add: eight_pushes_def px_valid_example)
  have o2: "offered example_render ?drain = map example_px [1, 2, 3, 4, 5, 6, 7, 8]"
    by (simp add: eight_pushes_def px_valid_example)
  have e: "pixel_queue (ndi_run example_render ?drain (ndi_started 5)) = []"
    by (simp add: eight_pushes_def ndi_run_Cons ndi_run_Nil ndi_started_def pushPixelData_def
          sendOne_def px_valid_example)
  from ndi_backpressure_accounting [of example_render eight_pushes 5] s
  have a: "framesSent (ndi_run example_render eight_pushes (ndi_started 5)) = 0"
    "framesDropped (ndi_run example_render eight_pushes (ndi_started 5)) = 3"
    "pixel_queue (ndi_run example_render eight_pushes (ndi_started 5))
       = map example_px [1, 2, 3, 4, 5]"
    by (simp_all add: o)
  from ndi_backpressure_accounting [of example_render ?drain 5] e
  have b: "framesSent (ndi_run example_render ?drain (ndi_started 5)) +
     framesDropped (ndi_run example_render ?drain (ndi_started 5)) = 8"
    by (simp add: o2)
  from s a b e show ?thesis by simp
qed

text \<open>Claim C5 as stated fails while frames wait in the queue: after one frame offered
  to the empty queue the counters add up to 0, and after eight frames offered to a
  stalled sender of depth 5 they add up to 3.\<close>

theorem queued_frames_are_not_counted:
  "length (offered example_render [PushPixelData (example_px 1)]) = 1 \<and>
   framesSent (ndi_run example_render [PushPixelData (example_px 1)] (ndi_started 5)) +
     framesDropped (ndi_run example_render [PushPixelData (example_px 1)] (ndi_started 5)) = 0 \<and>
   length (offered example_render eight_pushes) = 8 \<and>
   framesSent (ndi_run example_render eight_pushes (ndi_started 5)) +
     framesDropped (ndi_run example_render eight_pushes (ndi_started 5)) = 3"
  by (simp add: eight_pushes_def ndi_run_Cons ndi_run_Nil ndi_started_def pushPixelData_def
        px_valid_example framesSent_def framesDropped_def)

end
